theory Spec2Isabelle
  imports Main "HOL-Library.Word"
begin

unbundle bit_operations_syntax

section \<open>Double precision arithmetic\<close>

text \<open>
  The one floating-point expression the skip decision of a site depends on is
  \<^verbatim>\<open>bc < tc * min_maf\<close>, where the two counts are \<^verbatim>\<open>size_t\<close> and \<^verbatim>\<open>min_maf\<close> is a
  \<^verbatim>\<open>double\<close>. C converts both counts to \<^verbatim>\<open>double\<close>, multiplies in \<^verbatim>\<open>double\<close> and compares.
  This is IEEE 754 binary64 arithmetic, rounding to nearest with ties to even, each
  operation rounded to \<^verbatim>\<open>double\<close> (no wider intermediate format, as on x86-64 and
  AArch64).

  \<open>Dbl m e\<close> is the number \<open>m * 2^e\<close>. The finite doubles are the numbers of this form
  with \<open>\<bar>m\<bar> < 2^53\<close> and \<open>-1074 \<le> e \<le> 971\<close>; the other values are the two infinities
  and NaN. The sign of a zero is not kept: neither a product with a count nor a
  comparison depends on it.
\<close>

datatype double = Dbl int int | PInf | NInf | NaN

text \<open>The number of binary digits of a positive integer.\<close>

function nbits :: "int \<Rightarrow> int" where
  "nbits n = (if n \<le> 0 then 0 else 1 + nbits (n div 2))"
  by pat_completeness auto
termination
  by (relation "measure nat") auto

declare nbits.simps [simp del]

definition dbl_inf :: "int \<Rightarrow> double" where
  "dbl_inf m = (if 0 < m then PInf else NInf)"

text \<open>
  \<open>round_dbl m e\<close> rounds the number \<open>m * 2^e\<close> to a double. \<open>q\<close> is the exponent of the
  last binary digit the result can keep: 53 digits from the leading one, and never below
  the smallest exponent \<open>-1074\<close> (gradual underflow). When nothing is cut off the number
  is kept. Otherwise the digits below \<open>q\<close> are cut off and the result goes up when they
  are more than one half, or exactly one half with an odd last digit. A result of
  magnitude \<open>2^1024\<close> or more is an infinity.
\<close>

definition round_dbl :: "int \<Rightarrow> int \<Rightarrow> double" where
  "round_dbl m e =
     (if m = 0 then Dbl 0 0
      else
        let n = nbits \<bar>m\<bar>;
            q = max (e + n - 53) (- 1074)
        in if q \<le> e then (if 1024 < e + n then dbl_inf m else Dbl m e)
           else
             let s = nat (q - e);
                 a = \<bar>m\<bar> div 2 ^ s;
                 r = \<bar>m\<bar> mod 2 ^ s;
                 h = 2 ^ (s - 1);
                 a' = (if h < r \<or> (r = h \<and> odd a) then a + 1 else a)
             in if 1024 < nbits a' + q then dbl_inf m else Dbl (sgn m * a') q)"

text \<open>The conversion of an integer to \<^verbatim>\<open>double\<close>.\<close>

definition double_of_int :: "int \<Rightarrow> double" where
  "double_of_int n = round_dbl n 0"

fun dbl_sgn :: "double \<Rightarrow> int" where
  "dbl_sgn (Dbl m e) = sgn m"
| "dbl_sgn PInf = 1"
| "dbl_sgn NInf = - 1"
| "dbl_sgn NaN = 0"

text \<open>
  The product: NaN when a factor is NaN or when zero meets an infinity, the rounded
  exact product of two finite factors, and an infinity with the sign of the product
  otherwise.
\<close>

fun dbl_mult :: "double \<Rightarrow> double \<Rightarrow> double" where
  "dbl_mult NaN y = NaN"
| "dbl_mult x NaN = NaN"
| "dbl_mult (Dbl m1 e1) (Dbl m2 e2) = round_dbl (m1 * m2) (e1 + e2)"
| "dbl_mult x y =
     (if dbl_sgn x * dbl_sgn y = 0 then NaN else dbl_inf (dbl_sgn x * dbl_sgn y))"

text \<open>The comparison \<^verbatim>\<open><\<close>: false when an operand is NaN.\<close>

fun dbl_less :: "double \<Rightarrow> double \<Rightarrow> bool" where
  "dbl_less NaN y = False"
| "dbl_less x NaN = False"
| "dbl_less (Dbl m1 e1) (Dbl m2 e2) =
     (m1 * 2 ^ nat (e1 - min e1 e2) < m2 * 2 ^ nat (e2 - min e1 e2))"
| "dbl_less PInf y = False"
| "dbl_less NInf y = (y \<noteq> NInf)"
| "dbl_less (Dbl m e) y = (y = PInf)"

text \<open>The C expression \<^verbatim>\<open>b < t * maf\<close> for two counts \<open>b\<close> and \<open>t\<close> and a double \<open>maf\<close>.\<close>

definition below_maf :: "int \<Rightarrow> int \<Rightarrow> double \<Rightarrow> bool" where
  "below_maf b t maf = dbl_less (double_of_int b) (dbl_mult (double_of_int t) maf)"

section \<open>Configuration and alignment records\<close>

text \<open>
  The fields of \<^verbatim>\<open>global_settings\<close> that the pileup core reads. The struct is declared
  in a header outside \<^verbatim>\<open>src/\<close>; the types follow the format strings of
  \<^verbatim>\<open>gll_setting_print\<close> (\<^verbatim>\<open>%d\<close> for the integers, \<^verbatim>\<open>%.2f\<close> for \<^verbatim>\<open>min_maf\<close>).
  The two flag masks are C \<^verbatim>\<open>int\<close> bit patterns, \<^verbatim>\<open>min_maf\<close> is a \<^verbatim>\<open>double\<close>.
  The string options are \<^verbatim>\<open>char*\<close> fields, \<open>None\<close> for \<^verbatim>\<open>NULL\<close>.
\<close>

record global_settings =
  min_mapq :: int
  rflag_filter :: "32 word"
  rflag_require :: "32 word"
  no_orphan :: bool
  umi_tag :: "string option"
  cell_tag :: "string option"
  sample_ids :: "string list option"
  min_len :: int
  min_count :: int
  min_maf :: double
  is_genotype :: bool
  double_gl :: bool

text \<open>
  Modelled from the spec: the mode macros \<^verbatim>\<open>use_umi\<close>, \<^verbatim>\<open>use_barcodes\<close> and \<^verbatim>\<open>use_sid\<close>
  are declared outside \<^verbatim>\<open>src/\<close>. The spec has UMI mode active when the UMI tag is
  configured, barcode mode when the cell tag is, and per-file (sample id) mode when the
  sample-id list is present.
\<close>

definition use_umi :: "global_settings \<Rightarrow> bool" where
  "use_umi gs = (umi_tag gs \<noteq> None)"

definition use_barcodes :: "global_settings \<Rightarrow> bool" where
  "use_barcodes gs = (cell_tag gs \<noteq> None)"

definition use_sid :: "global_settings \<Rightarrow> bool" where
  "use_sid gs = (sample_ids gs \<noteq> None)"

text \<open>
  An aligned read, \<^verbatim>\<open>bam1_t\<close> of htslib: the members of \<^verbatim>\<open>b->core\<close> that the code reads
  (\<^verbatim>\<open>tid\<close>, \<^verbatim>\<open>pos\<close>, the 16-bit \<^verbatim>\<open>flag\<close>, the 8-bit mapping quality \<^verbatim>\<open>qual\<close>, \<^verbatim>\<open>l_qseq\<close>),
  the CIGAR words, the base sequence as one 4-bit code per base (what \<^verbatim>\<open>bam_seqi\<close>
  extracts), the base qualities and the string-valued auxiliary tags.
\<close>

record bam1 =
  core_tid :: int
  core_pos :: int
  core_flag :: "16 word"
  core_qual :: "8 word"
  core_l_qseq :: int
  cigar :: "32 word list"
  seq :: "nat list"
  bqual :: "nat list"
  aux :: "string \<rightharpoonup> string"

definition BAM_FPAIRED :: "16 word" where "BAM_FPAIRED = 1"
definition BAM_FPROPER_PAIR :: "16 word" where "BAM_FPROPER_PAIR = 2"
definition BAM_FUNMAP :: "16 word" where "BAM_FUNMAP = 4"

section \<open>Read filter: \<^verbatim>\<open>mp_func\<close>\<close>

text \<open>
  One pass of the \<^verbatim>\<open>do ... while (1)\<close> body decides whether the read just fetched is
  skipped (\<^verbatim>\<open>continue\<close>). The tests are those of the source, in its order; the flag is
  promoted to \<^verbatim>\<open>int\<close> before it meets a mask.
\<close>

definition mp_skip :: "global_settings \<Rightarrow> bam1 \<Rightarrow> bool" where
  "mp_skip gs b =
     (if core_tid b < 0 \<or> core_flag b AND BAM_FUNMAP \<noteq> 0 then True
      else if uint (core_qual b) < min_mapq gs then True
      else if rflag_filter gs \<noteq> 0 \<and> rflag_filter gs AND ucast (core_flag b) \<noteq> 0 then True
      else if rflag_require gs \<noteq> 0 \<and> \<not> (rflag_require gs AND ucast (core_flag b) \<noteq> 0) then True
      else if no_orphan gs \<and> core_flag b AND BAM_FPAIRED \<noteq> 0
              \<and> \<not> (core_flag b AND BAM_FPROPER_PAIR \<noteq> 0) then True
      else False)"

text \<open>
  The iterator is the list of what successive calls of \<^verbatim>\<open>sam_itr_next\<close> give: its return
  value and the record it stored. A negative return value ends the loop, and so does the
  end of the data, where htslib returns \<open>-1\<close>. The result is \<^verbatim>\<open>ret\<close>, the admitted read if
  there is one, and the rest of the iterator.
\<close>

fun mp_func :: "global_settings \<Rightarrow> (int \<times> bam1) list \<Rightarrow> int \<times> bam1 option \<times> (int \<times> bam1) list" where
  "mp_func gs [] = (- 1, None, [])"
| "mp_func gs ((ret, b) # itr) =
     (if ret < 0 then (ret, None, itr)
      else if mp_skip gs b then mp_func gs itr
      else (ret, Some b, itr))"

section \<open>One read at one site: \<^verbatim>\<open>pileup_read\<close>\<close>

text \<open>
  A function of the source returns a value, or the process stops at a failed \<^verbatim>\<open>assert\<close>
  (\<open>Abort\<close>), or it reads an array outside its bounds, which C leaves undefined
  (\<open>Fault\<close>).
\<close>

datatype 'a outcome = Ret 'a | Abort | Fault

text \<open>One column entry of htslib's pileup, \<^verbatim>\<open>bam_pileup1_t\<close>.\<close>

record bam_pileup1 =
  bp_b :: bam1
  bp_qpos :: int
  bp_is_del :: bool
  bp_is_refskip :: bool

text \<open>
  \<^verbatim>\<open>csp_pileup_t\<close>, the observation extracted from one read. The struct is declared
  outside \<^verbatim>\<open>src/\<close>; these are the fields that \<^verbatim>\<open>pileup_read\<close> writes. \<open>p_b\<close> is the
  field \<^verbatim>\<open>b\<close>.
\<close>

record csp_pileup =
  p_b :: bam1
  umi :: "string option"
  cb :: "string option"
  qpos :: int
  is_del :: bool
  is_refskip :: bool
  base :: nat
  qual :: nat
  laln :: "32 word"

text \<open>
  Modelled from the spec: \<^verbatim>\<open>get_bam_aux_str\<close> is outside \<^verbatim>\<open>src/\<close>. It is the auxiliary
  tag lookup of the read, \<^verbatim>\<open>NULL\<close> when the read does not carry the tag.
\<close>

definition get_bam_aux_str :: "bam1 \<Rightarrow> string option \<Rightarrow> string option" where
  "get_bam_aux_str r tag = (case tag of None \<Rightarrow> None | Some t \<Rightarrow> aux r t)"

text \<open>
  Modelled from the spec: the CIGAR accessors and operator codes are htslib's. A CIGAR
  word holds the operator in its low four bits and the length above them; \<^verbatim>\<open>M\<close>, \<^verbatim>\<open>=\<close>
  and \<^verbatim>\<open>X\<close> are the operators 0, 7 and 8.
\<close>

definition get_cigar_op :: "32 word \<Rightarrow> 32 word" where
  "get_cigar_op c = c AND 15"

definition get_cigar_len :: "32 word \<Rightarrow> 32 word" where
  "get_cigar_len c = drop_bit 4 c"

definition BAM_CMATCH :: "32 word" where "BAM_CMATCH = 0"
definition BAM_CEQUAL :: "32 word" where "BAM_CEQUAL = 7"
definition BAM_CDIFF :: "32 word" where "BAM_CDIFF = 8"

text \<open>The loop over the CIGAR words; \<^verbatim>\<open>laln\<close> is a \<^verbatim>\<open>uint32_t\<close> and wraps.\<close>

fun cigar_laln :: "32 word list \<Rightarrow> 32 word \<Rightarrow> 32 word" where
  "cigar_laln [] l = l"
| "cigar_laln (c # cs) l =
     cigar_laln cs
       (if get_cigar_op c = BAM_CMATCH \<or> get_cigar_op c = BAM_CEQUAL \<or> get_cigar_op c = BAM_CDIFF
        then l + get_cigar_len c else l)"

text \<open>
  Modelled from the spec: the base-index macros are outside \<^verbatim>\<open>src/\<close>. In the 4-bit
  encoding of the alignment format (\<^verbatim>\<open>=ACMGRSVTWYHKDBN\<close>) the code of \<^verbatim>\<open>N\<close> is 15, which
  is what \<^verbatim>\<open>seq_nt16_char2idx('N')\<close> gives; \<^verbatim>\<open>seq_nt16_idx2int\<close> sends the codes of
  A, C, G and T to 0, 1, 2 and 3 and every other code to 4.
\<close>

definition seq_nt16_char2idx_N :: nat where
  "seq_nt16_char2idx_N = 15"

definition seq_nt16_idx2int :: "nat \<Rightarrow> nat" where
  "seq_nt16_idx2int c = (if c = 1 then 0 else if c = 2 then 1 else if c = 4 then 2
                         else if c = 8 then 3 else 4)"

text \<open>
  \<^verbatim>\<open>pileup_read\<close>. The result is the return value and the observation as the function
  leaves it. The two array reads at \<^verbatim>\<open>qpos\<close> are checked against the arrays, so that a
  read outside them shows as \<open>Fault\<close>. The comparison \<^verbatim>\<open>laln < gs->min_len\<close> is unsigned.
\<close>

definition pileup_read ::
  "int \<Rightarrow> bam_pileup1 \<Rightarrow> csp_pileup \<Rightarrow> global_settings \<Rightarrow> (int \<times> csp_pileup) outcome" where
  "pileup_read pos bp p gs =
     (let p1 = p\<lparr>p_b := bp_b bp\<rparr>;
          p2 = (if use_umi gs then p1\<lparr>umi := get_bam_aux_str (p_b p1) (umi_tag gs)\<rparr> else p1)
      in if use_umi gs \<and> umi p2 = None then Ret (1, p2)
      else
        let p3 = (if use_barcodes gs then p2\<lparr>cb := get_bam_aux_str (p_b p2) (cell_tag gs)\<rparr> else p2)
        in if use_barcodes gs \<and> cb p3 = None then Ret (1, p3)
        else if \<not> core_pos (p_b p3) \<le> pos then Abort
        else if bp_is_del bp then Ret (2, p3)
        else if bp_is_refskip bp then Ret (2, p3)
        else if 0 < min_len gs \<and> cigar_laln (cigar (p_b p3)) 0 < word_of_int (min_len gs)
          then Ret (2, p3)
        else
          let p4 = (if 0 < min_len gs then p3\<lparr>laln := cigar_laln (cigar (p_b p3)) 0\<rparr> else p3);
              p5 = p4\<lparr>qpos := bp_qpos bp, is_del := bp_is_del bp, is_refskip := bp_is_refskip bp\<rparr>
          in if qpos p5 < core_l_qseq (p_b p5) then
               (if 0 \<le> qpos p5 \<and> nat (qpos p5) < length (seq (p_b p5))
                    \<and> nat (qpos p5) < length (bqual (p_b p5))
                then Ret (0, p5\<lparr>base := seq (p_b p5) ! nat (qpos p5),
                                 qual := bqual (p_b p5) ! nat (qpos p5)\<rparr>)
                else Fault)
             else Ret (0, p5\<lparr>base := seq_nt16_char2idx_N, qual := 0\<rparr>))"

section \<open>Per-site aggregation state\<close>

text \<open>
  \<^verbatim>\<open>csp_plp_t\<close> (one cell group at one site) and \<^verbatim>\<open>csp_mplp_t\<close> (the site) are declared
  outside \<^verbatim>\<open>src/\<close>; the fields are those the code under \<^verbatim>\<open>src/\<close> reads and writes. Both
  structs have the members \<^verbatim>\<open>bc[5]\<close>, \<^verbatim>\<open>tc\<close>, \<^verbatim>\<open>ad\<close>, \<^verbatim>\<open>dp\<close> and \<^verbatim>\<open>oth\<close>, which are
  the common part here. The counters are printed with \<^verbatim>\<open>%ld\<close>; they are unbounded
  integers here, so that a count never wraps and \<^verbatim>\<open>tc - dp\<close> is the value \<^verbatim>\<open>%ld\<close>
  shows. The floating-point members (\<^verbatim>\<open>qmat\<close>, \<^verbatim>\<open>qvec\<close>, \<^verbatim>\<open>gl\<close>) are left out.

  \<open>qu\<close> holds the five quality lists, \<open>hug\<close> the UMI set of the cell group. \<open>hsg\<close> is the
  cell-group map together with \<^verbatim>\<open>hsg_iter\<close>: the cell groups in their declared order, each
  with its name, so that \<^verbatim>\<open>nsg\<close> is the length of the list; \<open>su\<close> is the pool of UMI
  strings handed out at this site.
\<close>

record counts =
  bc :: "int list"
  tc :: int
  ad :: int
  dp :: int
  oth :: int

record csp_plp = counts +
  qu :: "nat list list"
  hug :: "string set"

record csp_mplp = counts +
  ref_idx :: int
  alt_idx :: int
  inf_rid :: int
  inf_aid :: int
  nr_ad :: int
  nr_dp :: int
  nr_oth :: int
  hsg :: "(string \<times> csp_plp) list"
  su :: "string list"

text \<open>
  What the code calls outside \<^verbatim>\<open>src/\<close> and cannot be computed here: whether
  \<^verbatim>\<open>map_ug_put\<close> manages to insert a key into a UMI set (it reports \<^verbatim>\<open>r < 0\<close> when it
  cannot), and whether the genotype likelihood computation of one cell group
  (\<^verbatim>\<open>get_qual_vector\<close> on each quality, then \<^verbatim>\<open>qual_matrix_to_geno\<close>, both on doubles)
  goes through without a negative return value.
\<close>

record extern =
  map_ug_put_ok :: "string set \<Rightarrow> string \<Rightarrow> bool"
  geno_ok :: "csp_plp \<Rightarrow> int \<Rightarrow> int \<Rightarrow> bool \<Rightarrow> bool"

text \<open>
  \<^verbatim>\<open>map_sg_get\<close>: the position of a name in the cell-group map, \<open>None\<close> for
  \<^verbatim>\<open>map_sg_end\<close>.
\<close>

fun map_sg_get :: "(string \<times> 'a) list \<Rightarrow> string \<Rightarrow> nat option" where
  "map_sg_get [] c = None"
| "map_sg_get ((n, v) # xs) c = (if n = c then Some 0 else map_option Suc (map_sg_get xs c))"

section \<open>Pushing one observation: \<^verbatim>\<open>csp_mplp_push\<close>\<close>

text \<open>
  The three statements that register an observation in a cell group:
  \<^verbatim>\<open>idx = seq_nt16_idx2int(pileup->base); plp->bc[idx]++; list_qu_push(plp->qu[idx], pileup->qual)\<close>.
\<close>

definition plp_register :: "csp_pileup \<Rightarrow> csp_plp \<Rightarrow> csp_plp" where
  "plp_register p plp =
     (let idx = seq_nt16_idx2int (base p)
      in plp\<lparr>bc := (bc plp)[idx := bc plp ! idx + 1],
             qu := (qu plp)[idx := qu plp ! idx @ [qual p]]\<rparr>)"

text \<open>
  The part of \<^verbatim>\<open>csp_mplp_push\<close> after the cell group has been resolved to the \<open>k\<close>-th
  entry of the map. In UMI mode a new UMI takes a string from the pool before
  \<^verbatim>\<open>map_ug_put\<close> is tried. A \<^verbatim>\<open>NULL\<close> UMI cannot be hashed: \<open>Fault\<close>.
\<close>

definition push_plp ::
  "extern \<Rightarrow> csp_pileup \<Rightarrow> csp_mplp \<Rightarrow> nat \<Rightarrow> global_settings \<Rightarrow> (int \<times> csp_mplp) outcome" where
  "push_plp X p m k gs =
     (let plp = snd (hsg m ! k)
      in if use_umi gs then
           (case umi p of
              None \<Rightarrow> Fault
            | Some u \<Rightarrow>
                if u \<in> hug plp then Ret (0, m)
                else
                  let m1 = m\<lparr>su := su m @ [u]\<rparr>
                  in if \<not> map_ug_put_ok X (hug plp) u then Ret (- 2, m1)
                     else Ret (0, m1\<lparr>hsg := (hsg m1)[k :=
                            (fst (hsg m1 ! k), plp_register p (plp\<lparr>hug := insert u (hug plp)\<rparr>))]\<rparr>))
         else Ret (0, m\<lparr>hsg := (hsg m)[k := (fst (hsg m ! k), plp_register p plp)]\<rparr>))"

text \<open>
  \<^verbatim>\<open>csp_mplp_push\<close>. In barcode mode the cell group is looked up by the barcode of the
  read; in sample-id mode it is \<^verbatim>\<open>hsg_iter[sid]\<close>, an array read that is checked here.
\<close>

definition csp_mplp_push ::
  "extern \<Rightarrow> csp_pileup \<Rightarrow> csp_mplp \<Rightarrow> int \<Rightarrow> global_settings \<Rightarrow> (int \<times> csp_mplp) outcome" where
  "csp_mplp_push X p m sid gs =
     (if use_barcodes gs then
        (case cb p of
           None \<Rightarrow> Fault
         | Some c \<Rightarrow>
             (case map_sg_get (hsg m) c of
                None \<Rightarrow> Ret (1, m)
              | Some k \<Rightarrow> push_plp X p m k gs))
      else if use_sid gs then
        (if 0 \<le> sid \<and> nat sid < length (hsg m) then push_plp X p m (nat sid) gs else Fault)
      else Ret (- 1, m))"

section \<open>Site statistics: \<^verbatim>\<open>csp_mplp_stat\<close>\<close>

text \<open>
  A \<^verbatim>\<open>size_t\<close> compared with an \<^verbatim>\<open>int\<close> is compared unsigned: the \<^verbatim>\<open>int\<close> is converted
  first, a negative one to a value near \<open>2^64\<close>. \<^verbatim>\<open>npushed\<close> is declared \<^verbatim>\<open>size_t\<close> in
  \<^verbatim>\<open>pileup_snp\<close>, and the counters of the site are taken to be of the same type.
\<close>

definition size_t_of_int :: "int \<Rightarrow> int" where
  "size_t_of_int i = (if i < 0 then i + 2 ^ 64 else i)"

text \<open>
  Modelled from the spec: \<^verbatim>\<open>infer_allele\<close> is outside \<^verbatim>\<open>src/\<close>. The spec has it scan
  \<^verbatim>\<open>bc[0..3]\<close> in canonical order, the inferred reference being the argmax and the
  inferred alternate the argmax of the remaining three; on a tie the lower index wins,
  and index 4 is never chosen. \<open>best_idx bc k is\<close> scans the candidates \<open>is\<close> with \<open>k\<close>
  the best so far.
\<close>

fun best_idx :: "int list \<Rightarrow> nat \<Rightarrow> nat list \<Rightarrow> nat" where
  "best_idx c k [] = k"
| "best_idx c k (i # is) = best_idx c (if c ! k < c ! i then i else k) is"

definition infer_allele :: "int list \<Rightarrow> int \<times> int" where
  "infer_allele c =
     (let r = best_idx c 0 [1, 2, 3];
          others = filter (\<lambda>i. i \<noteq> r) [0, 1, 2, 3];
          a = best_idx c (hd others) (tl others)
      in (int r, int a))"

text \<open>
  The first loop of \<^verbatim>\<open>csp_mplp_stat\<close>, over the cell groups: each adds its five counts
  to its own \<^verbatim>\<open>tc\<close> and to the five counts of the site. \<open>add5 g c\<close> is the array \<open>g\<close>
  after \<^verbatim>\<open>g[j] += c[j]\<close> for \<open>j\<close> from 0 to 4.
\<close>

definition add5 :: "int list \<Rightarrow> int list \<Rightarrow> int list" where
  "add5 g c = map (\<lambda>j. g ! j + c ! j) [0..<5]"

fun stat_sum :: "(string \<times> csp_plp) list \<Rightarrow> int list \<Rightarrow> (string \<times> csp_plp) list \<times> int list" where
  "stat_sum [] g = ([], g)"
| "stat_sum ((n, plp) # cs) g =
     (let plp' = plp\<lparr>tc := tc plp + (\<Sum>j\<leftarrow>[0..<5]. bc plp ! j)\<rparr>;
          g' = add5 g (bc plp);
          (cs', g'') = stat_sum cs g'
      in ((n, plp') # cs', g''))"

text \<open>
  The second loop, over the cell groups: the derived counts of each and the three
  record counters of the site. It stops with \<open>-1\<close> at the first cell group whose genotype
  computation fails.
\<close>

fun stat_cells ::
  "extern \<Rightarrow> global_settings \<Rightarrow> int \<Rightarrow> int \<Rightarrow> (string \<times> csp_plp) list \<Rightarrow> int \<times> int \<times> int
     \<Rightarrow> int \<times> (string \<times> csp_plp) list \<times> (int \<times> int \<times> int)" where
  "stat_cells X gs r a [] nr = (0, [], nr)"
| "stat_cells X gs r a ((n, plp) # cs) (na, nd, no) =
     (let p1 = plp\<lparr>ad := bc plp ! nat a\<rparr>;
          na' = (if ad p1 \<noteq> 0 then na + 1 else na);
          p2 = p1\<lparr>dp := bc p1 ! nat r + ad p1\<rparr>;
          nd' = (if dp p2 \<noteq> 0 then nd + 1 else nd);
          p3 = p2\<lparr>oth := tc p2 - dp p2\<rparr>;
          no' = (if oth p3 \<noteq> 0 then no + 1 else no)
      in if is_genotype gs \<and> \<not> geno_ok X p3 r a (double_gl gs)
         then (- 1, (n, p3) # cs, (na', nd', no'))
         else
           (let (ret, cs', nr') = stat_cells X gs r a cs (na', nd', no')
            in (ret, (n, p3) # cs', nr')))"

text \<open>
  \<^verbatim>\<open>csp_mplp_stat\<close>: the return value and the site state as the function leaves it. A
  reference or alternate index supplied by the caller is expected in \<open>0..4\<close>.
\<close>

definition csp_mplp_stat :: "extern \<Rightarrow> csp_mplp \<Rightarrow> global_settings \<Rightarrow> int \<times> csp_mplp" where
  "csp_mplp_stat X m gs =
     (let (cs1, g1) = stat_sum (hsg m) (bc m);
          m1 = m\<lparr>hsg := cs1, bc := g1\<rparr>;
          m2 = m1\<lparr>tc := tc m1 + (\<Sum>i\<leftarrow>[0..<5]. bc m1 ! i)\<rparr>
      in if tc m2 < size_t_of_int (min_count gs) then (1, m2)
         else
           let m3 = m2\<lparr>inf_rid := fst (infer_allele (bc m2)), inf_aid := snd (infer_allele (bc m2))\<rparr>
           in if below_maf (bc m3 ! nat (inf_aid m3)) (tc m3) (min_maf gs)
              then (1, m3)
              else
                let m4 = (if ref_idx m3 < 0 \<or> alt_idx m3 < 0
                          then m3\<lparr>ref_idx := inf_rid m3, alt_idx := inf_aid m3\<rparr> else m3);
                    m5 = m4\<lparr>ad := bc m4 ! nat (alt_idx m4)\<rparr>;
                    m6 = m5\<lparr>dp := bc m5 ! nat (ref_idx m5) + ad m5\<rparr>;
                    m7 = m6\<lparr>oth := tc m6 - dp m6\<rparr>;
                    (ret, cs2, (na, nd, no)) =
                       stat_cells X gs (ref_idx m7) (alt_idx m7) (hsg m7) (nr_ad m7, nr_dp m7, nr_oth m7)
                in (ret, m7\<lparr>hsg := cs2, nr_ad := na, nr_dp := nd, nr_oth := no\<rparr>))"

section \<open>One site: \<^verbatim>\<open>pileup_snp\<close>\<close>

text \<open>
  The double loop of \<^verbatim>\<open>pileup_snp\<close> runs over file \<open>i\<close> and the reads
  \<^verbatim>\<open>mp_plp[i][0 .. mp_n[i])\<close> of that file; \<open>plp_entries\<close> lists them in that order, each
  with its file index.
\<close>

definition plp_entries :: "bam_pileup1 list list \<Rightarrow> (nat \<times> bam_pileup1) list" where
  "plp_entries mp_plp = concat (map (\<lambda>(i, bps). map (Pair i) bps) (enumerate 0 mp_plp))"

text \<open>
  The loop body, read after read, with the observation buffer, the site state and
  \<^verbatim>\<open>npushed\<close> threaded through. The first component of the result is \<open>0\<close> when the loop
  runs to its end and \<open>-1\<close> when it leaves through \<^verbatim>\<open>goto fail\<close>.
\<close>

fun pileup_reads ::
  "extern \<Rightarrow> int \<Rightarrow> (nat \<times> bam_pileup1) list \<Rightarrow> csp_pileup \<Rightarrow> csp_mplp \<Rightarrow> nat \<Rightarrow> global_settings
     \<Rightarrow> (int \<times> csp_pileup \<times> csp_mplp \<times> nat) outcome" where
  "pileup_reads X pos [] p m npushed gs = Ret (0, p, m, npushed)"
| "pileup_reads X pos ((i, bp) # rs) p m npushed gs =
     (case pileup_read pos bp p gs of
        Abort \<Rightarrow> Abort
      | Fault \<Rightarrow> Fault
      | Ret (st, p') \<Rightarrow>
          if st = 0 then
            (if use_barcodes gs \<or> use_sid gs then
               (case csp_mplp_push X p' m (if use_barcodes gs then - 1 else int i) gs of
                  Abort \<Rightarrow> Abort
                | Fault \<Rightarrow> Fault
                | Ret (r, m') \<Rightarrow>
                    if r < 0 then Ret (- 1, p', m', npushed)
                    else pileup_reads X pos rs p' m' (if r = 0 then npushed + 1 else npushed) gs)
             else Ret (- 1, p', m, npushed))
          else if st < 0 then Ret (- 1, p', m, npushed)
          else pileup_reads X pos rs p' m npushed gs)"

text \<open>\<^verbatim>\<open>pileup_snp\<close>: 0 when the site is to be emitted, 1 when it is skipped, -1 on error.\<close>

definition pileup_snp ::
  "extern \<Rightarrow> int \<Rightarrow> bam_pileup1 list list \<Rightarrow> csp_pileup \<Rightarrow> csp_mplp \<Rightarrow> global_settings
     \<Rightarrow> (int \<times> csp_pileup \<times> csp_mplp) outcome" where
  "pileup_snp X pos mp_plp p m gs =
     (case pileup_reads X pos (plp_entries mp_plp) p (m\<lparr>ref_idx := - 1, alt_idx := - 1\<rparr>) 0 gs of
        Abort \<Rightarrow> Abort
      | Fault \<Rightarrow> Fault
      | Ret (st, p', m1, npushed) \<Rightarrow>
          if st \<noteq> 0 then Ret (- 1, p', m1)
          else if int npushed < size_t_of_int (min_count gs) then Ret (1, p', m1)
          else
            (case csp_mplp_stat X m1 gs of
               (ret, m2) \<Rightarrow>
                 if ret \<noteq> 0 then Ret (if 0 < ret then 1 else - 1, p', m2)
                 else Ret (0, p', m2)))"

section \<open>The site loop of a worker: \<^verbatim>\<open>csp_pileup_core\<close>\<close>

text \<open>
  Modelled from the spec: \<^verbatim>\<open>csp_mplp_reset\<close> is outside \<^verbatim>\<open>src/\<close>. The spec has it clear
  the per-site fields and the UMI sets and return the pooled strings, while the cell
  groups and their names persist.
\<close>

definition csp_plp_reset :: "csp_plp \<Rightarrow> csp_plp" where
  "csp_plp_reset plp = plp\<lparr>bc := [0, 0, 0, 0, 0], tc := 0, ad := 0, dp := 0, oth := 0,
                            qu := [[], [], [], [], []], hug := {}\<rparr>"

definition csp_mplp_reset :: "csp_mplp \<Rightarrow> csp_mplp" where
  "csp_mplp_reset m = m\<lparr>bc := [0, 0, 0, 0, 0], tc := 0, ad := 0, dp := 0, oth := 0,
                        ref_idx := - 1, alt_idx := - 1, inf_rid := - 1, inf_aid := - 1,
                        nr_ad := 0, nr_dp := 0, nr_oth := 0,
                        hsg := map (\<lambda>(n, plp). (n, csp_plp_reset plp)) (hsg m), su := []\<rparr>"

text \<open>
  The totals of a worker (\<^verbatim>\<open>thread_data\<close>: \<^verbatim>\<open>ns\<close>, \<^verbatim>\<open>nr_ad\<close>, \<^verbatim>\<open>nr_dp\<close>, \<^verbatim>\<open>nr_oth\<close>) and
  what it has written. The writers are outside \<^verbatim>\<open>src/\<close>; an emitted site is kept as its
  position and the site state handed to \<^verbatim>\<open>csp_mplp_to_mtx\<close> and to the VCF lines.
\<close>

record thread_data =
  d_ns :: nat
  d_nr_ad :: int
  d_nr_dp :: int
  d_nr_oth :: int
  d_out :: "(int \<times> csp_mplp) list"

text \<open>
  The body of the \<^verbatim>\<open>while\<close> loop of \<^verbatim>\<open>csp_pileup_core\<close> for one site that
  \<^verbatim>\<open>bam_mplp_auto\<close> yields. \<open>None\<close> is \<^verbatim>\<open>goto fail\<close>.
\<close>

definition core_site ::
  "extern \<Rightarrow> global_settings \<Rightarrow> int \<Rightarrow> bam_pileup1 list list \<Rightarrow> thread_data \<times> csp_pileup \<times> csp_mplp
     \<Rightarrow> (thread_data \<times> csp_pileup \<times> csp_mplp) option outcome" where
  "core_site X gs pos mp_plp s =
     (case s of (d, p, m) \<Rightarrow>
        (case pileup_snp X pos mp_plp p m gs of
           Abort \<Rightarrow> Abort
         | Fault \<Rightarrow> Fault
         | Ret (r, p', m') \<Rightarrow>
             if r \<noteq> 0 then
               (if r < 0 then Ret None else Ret (Some (d, p', csp_mplp_reset m')))
             else
               Ret (Some (d\<lparr>d_ns := d_ns d + 1,
                            d_nr_ad := d_nr_ad d + nr_ad m',
                            d_nr_dp := d_nr_dp d + nr_dp m',
                            d_nr_oth := d_nr_oth d + nr_oth m',
                            d_out := d_out d @ [(pos, m')]\<rparr>,
                         p', csp_mplp_reset m'))))"

section \<open>Merging the temporary matrices: \<^verbatim>\<open>merge_mtx\<close>\<close>

text \<open>
  Modelled from the spec: the file layer (\<^verbatim>\<open>jfile_t\<close>, \<^verbatim>\<open>jf_open\<close>, \<^verbatim>\<open>jf_isopen\<close>,
  \<^verbatim>\<open>jf_getln\<close>, \<^verbatim>\<open>jf_printf\<close>, \<^verbatim>\<open>jf_close\<close>) is outside \<^verbatim>\<open>src/\<close>; the spec has it as a
  line writer and reader with open and close. A file here has the value that \<^verbatim>\<open>jf_open\<close>
  returns for it (positive on success), whether it is open, and its lines. A line of a
  temporary matrix file is a string, as \<^verbatim>\<open>jf_getln\<close> delivers it without its newline.
  A line of a final matrix file is kept in its parts: \<open>Head ns nsample nr\<close> is the line
  printed with \<^verbatim>\<open>"%ld\t%d\t%ld\n"\<close>, \<open>Rec k l\<close> the line printed with \<^verbatim>\<open>"%ld\t%s\n"\<close>.
\<close>

datatype mtx_line = Head int int int | Rec nat string

record 'a jfile =
  jf_open_ret :: int
  jf_isopen :: bool
  jf_lines :: "'a list"

definition jf_open :: "'a jfile \<Rightarrow> int \<times> 'a jfile" where
  "jf_open f = (jf_open_ret f, f\<lparr>jf_isopen := (jf_isopen f \<or> 0 < jf_open_ret f)\<rparr>)"

definition jf_close :: "'a jfile \<Rightarrow> 'a jfile" where
  "jf_close f = f\<lparr>jf_isopen := False\<rparr>"

definition jf_printf :: "'a jfile \<Rightarrow> 'a \<Rightarrow> 'a jfile" where
  "jf_printf f l = (if jf_isopen f then f\<lparr>jf_lines := jf_lines f @ [l]\<rparr> else f)"

text \<open>
  The \<^verbatim>\<open>while\<close> loop of \<^verbatim>\<open>merge_mtx\<close> over the lines of one input file, with the row
  counter \<open>k\<close>, the record counter \<open>m\<close> and the output file threaded through.
\<close>

fun merge_lines :: "string list \<Rightarrow> nat \<Rightarrow> nat \<Rightarrow> mtx_line jfile \<Rightarrow> nat \<times> nat \<times> mtx_line jfile" where
  "merge_lines [] k m out = (k, m, out)"
| "merge_lines (l # ls) k m out =
     (if length l = 0 then merge_lines ls (k + 1) m out
      else merge_lines ls k (m + 1) (jf_printf out (Rec k l)))"

text \<open>
  What \<^verbatim>\<open>merge_mtx\<close> leaves behind: the value stored in \<^verbatim>\<open>*ret\<close>, the returned file
  count \<^verbatim>\<open>i\<close>, the contents of \<^verbatim>\<open>*ns\<close> and \<^verbatim>\<open>*nr\<close> (written on success only), the output
  file and the input files.
\<close>

record merge_result =
  mr_ret :: int
  mr_i :: nat
  mr_ns :: nat
  mr_nr :: nat
  mr_out :: "mtx_line jfile"
  mr_in :: "string jfile list"

text \<open>
  The \<^verbatim>\<open>for\<close> loop over the input files. \<open>seen\<close> holds the files already merged and
  closed, so that \<^verbatim>\<open>i\<close> is its length; \<open>ns0\<close> and \<open>nr0\<close> are what \<^verbatim>\<open>*ns\<close> and \<^verbatim>\<open>*nr\<close>
  held at the call.
\<close>

fun merge_files ::
  "string jfile list \<Rightarrow> string jfile list \<Rightarrow> nat \<Rightarrow> nat \<Rightarrow> mtx_line jfile \<Rightarrow> nat \<Rightarrow> nat \<Rightarrow> merge_result" where
  "merge_files seen [] k m out ns0 nr0 =
     \<lparr>mr_ret = 0, mr_i = length seen, mr_ns = k - 1, mr_nr = m, mr_out = out, mr_in = seen\<rparr>"
| "merge_files seen (f # fs) k m out ns0 nr0 =
     (case jf_open f of
        (r, f') \<Rightarrow>
          if r \<le> 0 then
            \<lparr>mr_ret = - 2, mr_i = length seen, mr_ns = ns0, mr_nr = nr0, mr_out = out,
             mr_in = seen @ (if jf_isopen f' then jf_close f' else f') # fs\<rparr>
          else
            (case merge_lines (jf_lines f') k m out of
               (k', m', out') \<Rightarrow> merge_files (seen @ [jf_close f']) fs k' m' out' ns0 nr0))"

definition merge_mtx :: "mtx_line jfile \<Rightarrow> string jfile list \<Rightarrow> nat \<Rightarrow> nat \<Rightarrow> merge_result" where
  "merge_mtx out ins ns0 nr0 =
     (if \<not> jf_isopen out \<and> fst (jf_open out) \<le> 0 then
        \<lparr>mr_ret = - 2, mr_i = 0, mr_ns = ns0, mr_nr = nr0, mr_out = snd (jf_open out),
         mr_in = (case ins of [] \<Rightarrow> [] | f # fs \<Rightarrow> (if jf_isopen f then jf_close f else f) # fs)\<rparr>
      else merge_files [] ins 1 0 (if jf_isopen out then out else snd (jf_open out)) ns0 nr0)"

text \<open>
  The merged body in the words of the spec: every non-empty line of the concatenated
  input, in order, prefixed with the row counter, which is the start value plus the
  number of empty lines before it.
\<close>

definition spec_merged_rows :: "nat \<Rightarrow> string list \<Rightarrow> mtx_line list" where
  "spec_merged_rows k ls =
     concat (map (\<lambda>p. if ls ! p = [] then []
                       else [Rec (k + length (filter (\<lambda>l. l = []) (take p ls))) (ls ! p)])
                 [0..<length ls])"

section \<open>The merge stage of \<^verbatim>\<open>csp_pileup\<close>\<close>

text \<open>
  One of the three blocks that merge a sparse matrix: open the final file, print the
  header with the totals of the shards, merge, verify, close. \<open>None\<close> is \<^verbatim>\<open>goto fail\<close>;
  otherwise the result holds the final file and the new values of \<^verbatim>\<open>ns_merge\<close> and
  \<^verbatim>\<open>nr_merge\<close>.
\<close>

definition merge_block ::
  "mtx_line jfile \<Rightarrow> string jfile list \<Rightarrow> nat \<Rightarrow> int \<Rightarrow> int \<Rightarrow> nat \<times> nat
     \<Rightarrow> (mtx_line jfile \<times> nat \<times> nat) option" where
  "merge_block out tmp ns nsample nr nm =
     (case jf_open out of
        (r, out1) \<Rightarrow>
          if r < 0 then None
          else
            let out2 = jf_printf out1 (Head (int ns) nsample nr);
                res = merge_mtx out2 tmp (fst nm) (snd nm)
            in if mr_ret res < 0 \<or> mr_ns res \<noteq> ns \<or> int (mr_nr res) \<noteq> nr then None
               else Some (jf_close (mr_out res), mr_ns res, mr_nr res))"

text \<open>
  The merge of the three matrices in \<^verbatim>\<open>csp_pileup\<close>, from the sums over the shards to
  the close of the OTH matrix. \<open>td\<close> are the totals the workers reported, \<open>nm\<close> what
  \<^verbatim>\<open>ns_merge\<close> and \<^verbatim>\<open>nr_merge\<close> hold before the first merge. The result is \<open>None\<close> when
  the function leaves through \<^verbatim>\<open>fail\<close> and returns \<open>-1\<close>, and the three final files
  otherwise.
\<close>

definition merge_stage ::
  "thread_data list \<Rightarrow> int
     \<Rightarrow> mtx_line jfile \<Rightarrow> string jfile list
     \<Rightarrow> mtx_line jfile \<Rightarrow> string jfile list
     \<Rightarrow> mtx_line jfile \<Rightarrow> string jfile list
     \<Rightarrow> nat \<times> nat \<Rightarrow> (mtx_line jfile \<times> mtx_line jfile \<times> mtx_line jfile) option" where
  "merge_stage td nsample out_ad tmp_ad out_dp tmp_dp out_oth tmp_oth nm =
     (let ns = (\<Sum>d\<leftarrow>td. d_ns d);
          nr_ad = (\<Sum>d\<leftarrow>td. d_nr_ad d);
          nr_dp = (\<Sum>d\<leftarrow>td. d_nr_dp d);
          nr_oth = (\<Sum>d\<leftarrow>td. d_nr_oth d)
      in case merge_block out_ad tmp_ad ns nsample nr_ad nm of
           None \<Rightarrow> None
         | Some (ad', nm1) \<Rightarrow>
             (case merge_block out_dp tmp_dp ns nsample nr_dp nm1 of
                None \<Rightarrow> None
              | Some (dp', nm2) \<Rightarrow>
                  (case merge_block out_oth tmp_oth ns nsample nr_oth nm2 of
                     None \<Rightarrow> None
                   | Some (oth', nm3) \<Rightarrow> Some (ad', dp', oth'))))"

section \<open>The multi-thread setup loop of \<^verbatim>\<open>csp_pileup\<close>\<close>

text \<open>
  The counters of the loop that builds one \<^verbatim>\<open>thread_data\<close> per shard, for a run in which
  no allocation and no file operation fails: \<open>ntd\<close> shards built, \<open>ntfs\<close> file arrays
  stored in \<^verbatim>\<open>tfs\<close>, \<open>ntiter\<close> the count of entries of the iterator table, \<open>titer_adv\<close>
  how far the pointer \<^verbatim>\<open>titer\<close> itself has been advanced, and \<open>itrs_made\<close> the iterators
  created by \<^verbatim>\<open>sam_itr_querys\<close>. One pass stores the file array with \<^verbatim>\<open>tfs[ntfs++]\<close>,
  creates \<^verbatim>\<open>d->m = 1\<close> times \<^verbatim>\<open>nin\<close> iterators, and executes \<^verbatim>\<open>titer[titer++] = iter\<close>,
  whose increment applies to \<^verbatim>\<open>titer\<close>: no statement of the loop changes \<^verbatim>\<open>ntiter\<close>.
\<close>

record setup_counters =
  ntd :: nat
  ntfs :: nat
  ntiter :: nat
  titer_adv :: nat
  itrs_made :: nat

definition setup_pass :: "nat \<Rightarrow> setup_counters \<Rightarrow> setup_counters" where
  "setup_pass nin c = c\<lparr>ntfs := ntfs c + 1, itrs_made := itrs_made c + 1 * nin,
                         titer_adv := titer_adv c + 1, ntd := ntd c + 1\<rparr>"

function setup_loop :: "nat \<Rightarrow> nat \<Rightarrow> setup_counters \<Rightarrow> setup_counters" where
  "setup_loop mtd nin c = (if ntd c < mtd then setup_loop mtd nin (setup_pass nin c) else c)"
  by pat_completeness auto
termination
  by (relation "measure (\<lambda>(mtd, nin, c). mtd - ntd c)") (auto simp: setup_pass_def)

declare setup_loop.simps [simp del]

text \<open>
  The cleanup loops destroy \<^verbatim>\<open>titer[i][j][k]\<close> for \<^verbatim>\<open>i < ntiter\<close>, \<^verbatim>\<open>j < niter\<close> and
  \<^verbatim>\<open>k < nitr\<close>; after the setup loop \<^verbatim>\<open>niter\<close> is 1 and \<^verbatim>\<open>nitr\<close> is \<^verbatim>\<open>nin\<close>.
\<close>

definition itrs_destroyed :: "nat \<Rightarrow> setup_counters \<Rightarrow> nat" where
  "itrs_destroyed nin c = ntiter c * 1 * nin"

section \<open>Properties of a site state\<close>

text \<open>
  In UMI mode, the counts of every cell group add up to the number of distinct UMIs
  registered for it at this site.
\<close>

definition umi_counted :: "csp_mplp \<Rightarrow> bool" where
  "umi_counted m = (\<forall>(n, plp) \<in> set (hsg m). length (bc plp) = 5 \<and> finite (hug plp)
                      \<and> sum_list (bc plp) = int (card (hug plp)))"

text \<open>
  A site state before the statistics of the site are taken: the five counts and the total
  of the site are zero, and every cell group has five counts, none negative, and a zero
  total. \<^verbatim>\<open>csp_mplp_reset\<close> leaves such a state, and pushes keep it.
\<close>

definition site_cleared :: "csp_mplp \<Rightarrow> bool" where
  "site_cleared m = (bc m = [0, 0, 0, 0, 0] \<and> tc m = 0
      \<and> (\<forall>(n, plp) \<in> set (hsg m). length (bc plp) = 5 \<and> (\<forall>x \<in> set (bc plp). 0 \<le> x)
            \<and> tc plp = 0))"

section \<open>Example inputs\<close>

text \<open>
  Concrete configurations and reads on which the results below are evaluated: a
  configuration in barcode mode without UMIs, the same with UMIs, and a mapped read with
  one base \<^verbatim>\<open>A\<close> of quality 30, barcode \<^verbatim>\<open>C1\<close> and UMI \<^verbatim>\<open>AAAA\<close>.
\<close>

definition gs_barcode :: global_settings where
  "gs_barcode = \<lparr>min_mapq = 20, rflag_filter = 0, rflag_require = 0, no_orphan = False,
       umi_tag = None, cell_tag = Some ''CB'', sample_ids = None, min_len = 0, min_count = 1,
       min_maf = Dbl 0 0, is_genotype = False, double_gl = False\<rparr>"


definition read_A :: bam1 where
  "read_A = \<lparr>core_tid = 0, core_pos = 99, core_flag = 0, core_qual = 30, core_l_qseq = 1,
       cigar = [17], seq = [1], bqual = [30],
       aux = [''CB'' \<mapsto> ''C1'', ''UB'' \<mapsto> ''AAAA'']\<rparr>"

definition pileup0 :: csp_pileup where
  "pileup0 = \<lparr>p_b = read_A, umi = None, cb = None, qpos = 0, is_del = False,
       is_refskip = False, base = 0, qual = 0, laln = 0\<rparr>"

text \<open>
  A site state as \<^verbatim>\<open>csp_mplp_reset\<close> leaves it, with the two cell groups \<^verbatim>\<open>C1\<close> and
  \<^verbatim>\<open>C2\<close>, and an environment in which neither \<^verbatim>\<open>map_ug_put\<close> nor the genotype
  computation fails.
\<close>

definition plp0 :: csp_plp where
  "plp0 = \<lparr>bc = [0, 0, 0, 0, 0], tc = 0, ad = 0, dp = 0, oth = 0,
            qu = [[], [], [], [], []], hug = {}\<rparr>"

definition mplp0 :: csp_mplp where
  "mplp0 = \<lparr>bc = [0, 0, 0, 0, 0], tc = 0, ad = 0, dp = 0, oth = 0,
            ref_idx = - 1, alt_idx = - 1, inf_rid = - 1, inf_aid = - 1,
            nr_ad = 0, nr_dp = 0, nr_oth = 0,
            hsg = [(''C1'', plp0), (''C2'', plp0)], su = []\<rparr>"

definition extern_ok :: extern where
  "extern_ok = \<lparr>map_ug_put_ok = (\<lambda>_ _. True), geno_ok = (\<lambda>_ _ _ _. True)\<rparr>"



definition obs_unknown :: csp_pileup where
  "obs_unknown = pileup0\<lparr>umi := Some ''AAAA'', cb := Some ''C9'', base := 1, qual := 30\<rparr>"

definition mplp1 :: csp_mplp where
  "mplp1 = mplp0\<lparr>hsg := [(''C1'', plp0\<lparr>bc := [1, 0, 0, 0, 0], qu := [[30], [], [], [], []],
                                        hug := {''AAAA''}\<rparr>), (''C2'', plp0)],
                  su := [''AAAA'']\<rparr>"

text \<open>
  The first end-to-end scenario of the spec: at one site, two reads of cell group \<^verbatim>\<open>C1\<close>
  with base \<^verbatim>\<open>A\<close> and one read of cell group \<^verbatim>\<open>C2\<close> with base \<^verbatim>\<open>T\<close>, all from one
  input file.
\<close>

definition read_T :: bam1 where
  "read_T = read_A\<lparr>seq := [8], aux := [''CB'' \<mapsto> ''C2'', ''UB'' \<mapsto> ''CCCC'']\<rparr>"

definition site_S1 :: "bam_pileup1 list list" where
  "site_S1 = [[\<lparr>bp_b = read_A, bp_qpos = 0, bp_is_del = False, bp_is_refskip = False\<rparr>,
               \<lparr>bp_b = read_A, bp_qpos = 0, bp_is_del = False, bp_is_refskip = False\<rparr>,
               \<lparr>bp_b = read_T, bp_qpos = 0, bp_is_del = False, bp_is_refskip = False\<rparr>]]"

text \<open>The observation buffer and the site state after \<^verbatim>\<open>pileup_snp\<close> on that site.\<close>

definition obs_S1 :: csp_pileup where
  "obs_S1 = pileup0\<lparr>p_b := read_T, cb := Some ''C2'', base := 8, qual := 30\<rparr>"

definition mplp_S1 :: csp_mplp where
  "mplp_S1 = \<lparr>bc = [2, 0, 0, 1, 0], tc = 3, ad = 1, dp = 3, oth = 0,
              ref_idx = 0, alt_idx = 3, inf_rid = 0, inf_aid = 3,
              nr_ad = 1, nr_dp = 2, nr_oth = 0,
              hsg = [(''C1'', \<lparr>bc = [2, 0, 0, 0, 0], tc = 2, ad = 0, dp = 2, oth = 0,
                               qu = [[30, 30], [], [], [], []], hug = {}\<rparr>),
                     (''C2'', \<lparr>bc = [0, 0, 0, 1, 0], tc = 1, ad = 1, dp = 1, oth = 0,
                               qu = [[], [], [], [30], []], hug = {}\<rparr>)],
              su = []\<rparr>"

text \<open>
  A configuration whose minor-allele threshold is the double nearest to one tenth,
  \<open>7205759403792794 * 2^-56\<close>, and the state in which
  \<^verbatim>\<open>csp_mplp_stat\<close> leaves \<open>mplp1\<close> under it; a configuration with \<^verbatim>\<open>min_count = 0\<close>; a
  site whose only read carries a barcode that names no cell group, the observation
  buffer and the site state after \<^verbatim>\<open>pileup_snp\<close> on it; and the totals of a worker that
  has emitted nothing yet.
\<close>

definition gs_maf :: global_settings where
  "gs_maf = gs_barcode\<lparr>min_maf := Dbl 7205759403792794 (- 56)\<rparr>"

definition mplp1_skipped :: csp_mplp where
  "mplp1_skipped = \<lparr>bc = [1, 0, 0, 0, 0], tc = 1, ad = 0, dp = 0, oth = 0,
       ref_idx = - 1, alt_idx = - 1, inf_rid = 0, inf_aid = 1, nr_ad = 0, nr_dp = 0, nr_oth = 0,
       hsg = [(''C1'', \<lparr>bc = [1, 0, 0, 0, 0], tc = 1, ad = 0, dp = 0, oth = 0,
                        qu = [[30], [], [], [], []], hug = {''AAAA''}\<rparr>),
              (''C2'', plp0)],
       su = [''AAAA'']\<rparr>"

definition gs_count0 :: global_settings where
  "gs_count0 = gs_barcode\<lparr>min_count := 0\<rparr>"

text \<open>
  Two sites at which the rounding of the product decides. The first has 18 reads with
  base \<^verbatim>\<open>A\<close> and 7 with base \<^verbatim>\<open>C\<close>, under the threshold \<open>5044031582654956 * 2^-54\<close>,
  the double nearest to 0.28. The second has 9 reads with base \<^verbatim>\<open>A\<close> and 1 with base
  \<^verbatim>\<open>C\<close>, under the threshold of \<open>gs_maf\<close>.
\<close>

definition gs_maf28 :: global_settings where
  "gs_maf28 = gs_barcode\<lparr>min_maf := Dbl 5044031582654956 (- 54)\<rparr>"

definition mplp_18_7 :: csp_mplp where
  "mplp_18_7 = mplp0\<lparr>hsg := [(''C1'', plp0\<lparr>bc := [18, 7, 0, 0, 0]\<rparr>), (''C2'', plp0)]\<rparr>"

definition mplp_9_1 :: csp_mplp where
  "mplp_9_1 = mplp0\<lparr>hsg := [(''C1'', plp0\<lparr>bc := [9, 1, 0, 0, 0]\<rparr>), (''C2'', plp0)]\<rparr>"

definition read_unknown :: bam1 where
  "read_unknown = read_A\<lparr>aux := [''CB'' \<mapsto> ''C9'', ''UB'' \<mapsto> ''AAAA'']\<rparr>"

definition site_unknown :: "bam_pileup1 list list" where
  "site_unknown = [[\<lparr>bp_b = read_unknown, bp_qpos = 0, bp_is_del = False, bp_is_refskip = False\<rparr>]]"

definition obs_empty :: csp_pileup where
  "obs_empty = pileup0\<lparr>p_b := read_unknown, cb := Some ''C9'', base := 1, qual := 30\<rparr>"

definition mplp_empty :: csp_mplp where
  "mplp_empty = mplp0\<lparr>ref_idx := 0, alt_idx := 1, inf_rid := 0, inf_aid := 1\<rparr>"

definition d0 :: thread_data where
  "d0 = \<lparr>d_ns = 0, d_nr_ad = 0, d_nr_dp = 0, d_nr_oth = 0, d_out = []\<rparr>"

text \<open>
  The temporary AD files of two shards: the first with two sites, the second with one,
  each site closed by an empty line; a final file that is not open yet; and the totals
  the two workers reported.
\<close>

definition shard0 :: "string jfile" where
  "shard0 = \<lparr>jf_open_ret = 1, jf_isopen = False, jf_lines = [''1 2'', [], ''2 1'', []]\<rparr>"

definition shard1 :: "string jfile" where
  "shard1 = \<lparr>jf_open_ret = 1, jf_isopen = False, jf_lines = [''1 1'', ''2 3'', []]\<rparr>"

definition final0 :: "mtx_line jfile" where
  "final0 = \<lparr>jf_open_ret = 1, jf_isopen = False, jf_lines = []\<rparr>"

definition td0 :: thread_data where
  "td0 = \<lparr>d_ns = 2, d_nr_ad = 2, d_nr_dp = 2, d_nr_oth = 2, d_out = []\<rparr>"

definition td1 :: thread_data where
  "td1 = \<lparr>d_ns = 1, d_nr_ad = 2, d_nr_dp = 2, d_nr_oth = 2, d_out = []\<rparr>"

section \<open>Results about the read filter\<close>

lemma mp_func_admitted:
  "mp_func gs itr = (ret, Some b, rest) \<Longrightarrow> \<not> mp_skip gs b"
  by (induction gs itr rule: mp_func.induct) (auto split: if_splits)

lemma mp_func_member:
  "mp_func gs itr = (ret, Some b, rest) \<Longrightarrow> (ret, b) \<in> set itr"
  by (induction gs itr rule: mp_func.induct) (auto split: if_splits)

text \<open>
  C4, as the claim states it, fails: with \<^verbatim>\<open>rflag_require = 3\<close> a mapped read whose flag
  word is \<open>1\<close> carries only one of the two required bits, and \<^verbatim>\<open>mp_func\<close> admits it.
\<close>

theorem C4_require_all_bits_counterexample:
  "rflag_require \<lparr>min_mapq = 20, rflag_filter = 0, rflag_require = 3, no_orphan = False,
       umi_tag = None, cell_tag = None, sample_ids = None, min_len = 0, min_count = 1,
       min_maf = Dbl 0 0, is_genotype = False, double_gl = False\<rparr> \<noteq> 0
   \<and> mp_func \<lparr>min_mapq = 20, rflag_filter = 0, rflag_require = 3, no_orphan = False,
       umi_tag = None, cell_tag = None, sample_ids = None, min_len = 0, min_count = 1,
       min_maf = Dbl 0 0, is_genotype = False, double_gl = False\<rparr>
       [(0, \<lparr>core_tid = 0, core_pos = 99, core_flag = 1, core_qual = 30, core_l_qseq = 1,
             cigar = [], seq = [1], bqual = [30], aux = Map.empty\<rparr>)]
     = (0, Some \<lparr>core_tid = 0, core_pos = 99, core_flag = 1, core_qual = 30, core_l_qseq = 1,
             cigar = [], seq = [1], bqual = [30], aux = Map.empty\<rparr>, [])
   \<and> (ucast (1 :: 16 word) :: 32 word) AND 3 \<noteq> 3"
  by (simp add: mp_skip_def BAM_FUNMAP_def BAM_FPAIRED_def BAM_FPROPER_PAIR_def)

text \<open>
  C4, amended: when \<^verbatim>\<open>rflag_require\<close> is nonzero, every read that \<^verbatim>\<open>mp_func\<close> admits has
  at least one bit of \<^verbatim>\<open>rflag_require\<close> set in its flag word (\<^verbatim>\<open>flags & rflag_require\<close> is
  nonzero), and a read with none of these bits set is skipped. A read with only some of
  the bits set is not skipped by this test: as soon as one of the bits is set, the read
  is skipped exactly when it would be with no required flags at all, and when the other
  tests let it pass, \<^verbatim>\<open>mp_func\<close> admits it.
\<close>

theorem C4_require_some_bit:
  "rflag_require gs \<noteq> 0 \<Longrightarrow>
   (mp_func gs itr = (ret, Some b, rest) \<longrightarrow> rflag_require gs AND ucast (core_flag b) \<noteq> 0)
   \<and> (rflag_require gs AND ucast (core_flag c) = 0 \<longrightarrow> mp_skip gs c)
   \<and> (rflag_require gs AND ucast (core_flag c) \<noteq> 0
        \<longrightarrow> mp_skip gs c = mp_skip (gs\<lparr>rflag_require := 0\<rparr>) c)
   \<and> (rflag_require gs AND ucast (core_flag c) \<noteq> 0 \<and> 0 \<le> r
          \<and> \<not> mp_skip (gs\<lparr>rflag_require := 0\<rparr>) c
        \<longrightarrow> mp_func gs ((r, c) # itr) = (r, Some c, itr))"
proof -
  assume req: "rflag_require gs \<noteq> 0"
  have admitted: "rflag_require gs AND ucast (core_flag b) \<noteq> 0"
    if "mp_func gs itr = (ret, Some b, rest)"
  proof -
    from that have "\<not> mp_skip gs b" by (rule mp_func_admitted)
    with req show ?thesis by (auto simp: mp_skip_def split: if_splits)
  qed
  have none: "mp_skip gs c" if "rflag_require gs AND ucast (core_flag c) = 0"
    using that req by (simp add: mp_skip_def)
  have some: "mp_skip gs c = mp_skip (gs\<lparr>rflag_require := 0\<rparr>) c"
    if "rflag_require gs AND ucast (core_flag c) \<noteq> 0"
    using that by (simp add: mp_skip_def)
  have passes: "mp_func gs ((r, c) # itr) = (r, Some c, itr)"
    if "rflag_require gs AND ucast (core_flag c) \<noteq> 0 \<and> 0 \<le> r
          \<and> \<not> mp_skip (gs\<lparr>rflag_require := 0\<rparr>) c"
    using that some by simp
  from admitted none some passes show ?thesis by blast
qed

theorem C4_require_some_bit_witness:
  "rflag_require \<lparr>min_mapq = 20, rflag_filter = 0, rflag_require = 3, no_orphan = False,
       umi_tag = None, cell_tag = None, sample_ids = None, min_len = 0, min_count = 1,
       min_maf = Dbl 0 0, is_genotype = False, double_gl = False\<rparr> \<noteq> 0
   \<and> (3 :: 32 word) AND ucast (1 :: 16 word) \<noteq> 0
   \<and> (3 :: 32 word) AND ucast (1 :: 16 word) \<noteq> 3
   \<and> \<not> mp_skip \<lparr>min_mapq = 20, rflag_filter = 0, rflag_require = 0, no_orphan = False,
       umi_tag = None, cell_tag = None, sample_ids = None, min_len = 0, min_count = 1,
       min_maf = Dbl 0 0, is_genotype = False, double_gl = False\<rparr>
       \<lparr>core_tid = 0, core_pos = 99, core_flag = 1, core_qual = 30, core_l_qseq = 1,
             cigar = [], seq = [1], bqual = [30], aux = Map.empty\<rparr>
   \<and> \<not> mp_skip \<lparr>min_mapq = 20, rflag_filter = 0, rflag_require = 3, no_orphan = False,
       umi_tag = None, cell_tag = None, sample_ids = None, min_len = 0, min_count = 1,
       min_maf = Dbl 0 0, is_genotype = False, double_gl = False\<rparr>
       \<lparr>core_tid = 0, core_pos = 99, core_flag = 1, core_qual = 30, core_l_qseq = 1,
             cigar = [], seq = [1], bqual = [30], aux = Map.empty\<rparr>
   \<and> (3 :: 32 word) AND ucast (16 :: 16 word) = 0
   \<and> mp_skip \<lparr>min_mapq = 20, rflag_filter = 0, rflag_require = 3, no_orphan = False,
       umi_tag = None, cell_tag = None, sample_ids = None, min_len = 0, min_count = 1,
       min_maf = Dbl 0 0, is_genotype = False, double_gl = False\<rparr>
       \<lparr>core_tid = 0, core_pos = 99, core_flag = 16, core_qual = 30, core_l_qseq = 1,
             cigar = [], seq = [1], bqual = [30], aux = Map.empty\<rparr>"
proof -
  let ?gs = "\<lparr>min_mapq = 20, rflag_filter = 0, rflag_require = 3, no_orphan = False,
       umi_tag = None, cell_tag = None, sample_ids = None, min_len = 0, min_count = 1,
       min_maf = Dbl 0 0, is_genotype = False, double_gl = False\<rparr>"
  let ?some = "\<lparr>core_tid = 0, core_pos = 99, core_flag = 1, core_qual = 30, core_l_qseq = 1,
             cigar = [], seq = [1], bqual = [30], aux = Map.empty\<rparr>"
  let ?none = "\<lparr>core_tid = 0, core_pos = 99, core_flag = 16, core_qual = 30, core_l_qseq = 1,
             cigar = [], seq = [1], bqual = [30], aux = Map.empty\<rparr>"
  have req: "rflag_require ?gs \<noteq> 0" by simp
  have free: "\<not> mp_skip (?gs\<lparr>rflag_require := 0\<rparr>) ?some"
    by (simp add: mp_skip_def BAM_FUNMAP_def BAM_FPAIRED_def BAM_FPROPER_PAIR_def)
  note thm_some = C4_require_some_bit [OF req, where c = "?some" and itr = "[]" and b = "?some"
      and ret = 0 and rest = "[]" and r = 0]
  note thm_none = C4_require_some_bit [OF req, where c = "?none" and itr = "[]" and b = "?some"
      and ret = 0 and rest = "[]" and r = 0]
  from thm_some free have same: "mp_skip ?gs ?some = mp_skip (?gs\<lparr>rflag_require := 0\<rparr>) ?some"
    by simp
  from thm_none have skipped: "mp_skip ?gs ?none" by simp
  from same free skipped show ?thesis by simp
qed

section \<open>Results about \<^verbatim>\<open>pileup_read\<close>\<close>

text \<open>
  C10. When \<^verbatim>\<open>pileup_read\<close> accepts a read (returns 0) whose pileup query position is
  not less than \<^verbatim>\<open>l_qseq\<close>, the observation holds the base code of \<^verbatim>\<open>N\<close> (which counts
  under base index 4) and quality 0. And on a record whose base and quality arrays have
  \<^verbatim>\<open>l_qseq\<close> entries, no query position from 0 up makes \<^verbatim>\<open>pileup_read\<close> read outside
  them.
\<close>

theorem C10_qpos_beyond_read:
  "(core_l_qseq (bp_b bp) \<le> bp_qpos bp \<and> pileup_read pos bp p gs = Ret (0, p')
      \<longrightarrow> base p' = seq_nt16_char2idx_N \<and> qual p' = 0 \<and> seq_nt16_idx2int (base p') = 4)
   \<and> (0 \<le> bp_qpos bp \<and> int (length (seq (bp_b bp))) = core_l_qseq (bp_b bp)
        \<and> int (length (bqual (bp_b bp))) = core_l_qseq (bp_b bp)
      \<longrightarrow> pileup_read pos bp p gs \<noteq> Fault)"
proof -
  have beyond: "base p' = seq_nt16_char2idx_N \<and> qual p' = 0 \<and> seq_nt16_idx2int (base p') = 4"
    if "core_l_qseq (bp_b bp) \<le> bp_qpos bp \<and> pileup_read pos bp p gs = Ret (0, p')"
    using that
    by (auto simp: pileup_read_def Let_def seq_nt16_char2idx_N_def seq_nt16_idx2int_def
             split: if_splits)
  have inside: "pileup_read pos bp p gs \<noteq> Fault"
    if "0 \<le> bp_qpos bp \<and> int (length (seq (bp_b bp))) = core_l_qseq (bp_b bp)
        \<and> int (length (bqual (bp_b bp))) = core_l_qseq (bp_b bp)"
    using that by (auto simp: pileup_read_def Let_def split: if_splits)
  from beyond inside show ?thesis by blast
qed

theorem C10_qpos_beyond_read_witness:
  "core_l_qseq read_A \<le> 1
   \<and> pileup_read 100 \<lparr>bp_b = read_A, bp_qpos = 1, bp_is_del = False, bp_is_refskip = False\<rparr>
        pileup0 gs_barcode
      = Ret (0, pileup0\<lparr>cb := Some ''C1'', qpos := 1, base := 15, qual := 0\<rparr>)
   \<and> int (length (seq read_A)) = core_l_qseq read_A
   \<and> int (length (bqual read_A)) = core_l_qseq read_A
   \<and> pileup_read 100 \<lparr>bp_b = read_A, bp_qpos = 1, bp_is_del = False, bp_is_refskip = False\<rparr>
        pileup0 gs_barcode \<noteq> Fault"
  using C10_qpos_beyond_read [of
      "\<lparr>bp_b = read_A, bp_qpos = 1, bp_is_del = False, bp_is_refskip = False\<rparr>"
      100 pileup0 gs_barcode
      "pileup0\<lparr>cb := Some ''C1'', qpos := 1, base := 15, qual := 0\<rparr>"]
  by (simp add: pileup_read_def read_A_def pileup0_def gs_barcode_def use_umi_def
        use_barcodes_def get_bam_aux_str_def seq_nt16_char2idx_N_def)

section \<open>Results about \<^verbatim>\<open>csp_mplp_push\<close>\<close>

lemma map_sg_get_None: "map_sg_get xs c = None \<longleftrightarrow> c \<notin> fst ` set xs"
  by (induction xs) (auto split: if_splits)

lemma map_sg_get_Some: "map_sg_get xs c = Some k \<Longrightarrow> k < length xs \<and> fst (xs ! k) = c"
  by (induction xs arbitrary: k) (auto split: if_splits)

lemma map_sg_get_update:
  "k < length xs \<Longrightarrow> map_sg_get (xs[k := (fst (xs ! k), v)]) c = map_sg_get xs c"
proof (induction xs arbitrary: k)
  case Nil
  then show ?case by simp
next
  case (Cons x xs)
  then show ?case by (cases k; cases x) auto
qed

lemma seq_nt16_idx2int_lt: "seq_nt16_idx2int c < 5"
  by (simp add: seq_nt16_idx2int_def)


lemma hug_plp_register [simp]: "hug (plp_register p plp) = hug plp"
  by (simp add: plp_register_def Let_def)




lemma pileup_reads_inv:
  assumes step: "\<And>q m sid r m'. I m \<Longrightarrow> csp_mplp_push X q m sid gs = Ret (r, m') \<Longrightarrow> I m'"
  shows "I m \<Longrightarrow> pileup_reads X pos es p m n gs = Ret (st, p', m', n') \<Longrightarrow> I m'"
proof (induction es arbitrary: p m n)
  case Nil
  then show ?case by simp
next
  case (Cons e es)
  obtain i bp where e: "e = (i, bp)" by (cases e)
  from Cons.prems show ?case
    unfolding e
    by (auto split: outcome.splits if_splits prod.splits intro: Cons.IH step)
qed

lemma sum_list_incr: "i < length xs \<Longrightarrow> sum_list (xs[i := xs ! i + 1]) = sum_list xs + (1::int)"
proof (induction xs arbitrary: i)
  case Nil
  then show ?case by simp
next
  case (Cons x xs)
  then show ?case by (cases i) auto
qed

lemma bc_plp_register:
  "bc (plp_register p plp) = (bc plp)[seq_nt16_idx2int (base p) := bc plp ! seq_nt16_idx2int (base p) + 1]"
  by (simp add: plp_register_def Let_def)

lemma in_set_updateD: "x \<in> set (xs[k := y]) \<Longrightarrow> x = y \<or> x \<in> set xs"
  using set_update_subset_insert [of xs k y] by auto


lemma csp_mplp_push_cases:
  assumes "csp_mplp_push X p m sid gs = Ret (r, m')"
  obtains (unknown) "r = 1" "m' = m"
    | (nomode) "r = - 1" "m' = m"
    | (pushed) k where "k < length (hsg m)" "push_plp X p m k gs = Ret (r, m')"
proof (cases "use_barcodes gs")
  case True
  with assms obtain c where c: "cb p = Some c"
    by (auto simp: csp_mplp_push_def split: option.splits)
  show ?thesis
  proof (cases "map_sg_get (hsg m) c")
    case None
    with assms True c have "r = 1" "m' = m" by (simp_all add: csp_mplp_push_def)
    then show ?thesis by (rule unknown)
  next
    case (Some k)
    with assms True c have "push_plp X p m k gs = Ret (r, m')" by (simp add: csp_mplp_push_def)
    moreover from Some have "k < length (hsg m)" by (simp add: map_sg_get_Some)
    ultimately show ?thesis by (rule pushed [rotated])
  qed
next
  case False
  show ?thesis
  proof (cases "use_sid gs")
    case True
    with assms False have "nat sid < length (hsg m)" "push_plp X p m (nat sid) gs = Ret (r, m')"
      by (simp_all add: csp_mplp_push_def split: if_splits)
    then show ?thesis by (rule pushed)
  next
    case no: False
    with assms False have "r = - 1" "m' = m" by (simp_all add: csp_mplp_push_def)
    then show ?thesis by (rule nomode)
  qed
qed


lemma umi_counted_reset: "umi_counted (csp_mplp_reset m)"
  by (auto simp: umi_counted_def csp_mplp_reset_def csp_plp_reset_def)

text \<open>
  C8. In barcode mode, a push of an observation whose barcode is not a key of the
  cell-group map returns 1 and gives back the site state as it was: no count, quality
  list, UMI set or pool has changed. The loop of \<^verbatim>\<open>pileup_snp\<close> then goes on to the
  next read with the same state and the same \<^verbatim>\<open>npushed\<close>.
\<close>

theorem C8_unknown_barcode_dropped:
  "use_barcodes gs \<Longrightarrow> cb p = Some c \<Longrightarrow> c \<notin> fst ` set (hsg m) \<Longrightarrow>
     csp_mplp_push X p m sid gs = Ret (1, m)
     \<and> (pileup_read pos bp p0 gs = Ret (0, p) \<longrightarrow>
          pileup_reads X pos ((i, bp) # rs) p0 m npushed gs = pileup_reads X pos rs p m npushed gs)"
proof -
  assume bar: "use_barcodes gs" and cb: "cb p = Some c" and new: "c \<notin> fst ` set (hsg m)"
  from new have "map_sg_get (hsg m) c = None" by (simp add: map_sg_get_None)
  with bar cb have push: "csp_mplp_push X p m sid' gs = Ret (1, m)" for sid'
    by (simp add: csp_mplp_push_def)
  then show ?thesis using bar by simp
qed


theorem C8_unknown_barcode_dropped_witness:
  "use_barcodes gs_barcode \<and> cb obs_unknown = Some ''C9'' \<and> ''C9'' \<notin> fst ` set (hsg mplp0)
   \<and> csp_mplp_push extern_ok obs_unknown mplp0 (- 1) gs_barcode = Ret (1, mplp0)"
  using C8_unknown_barcode_dropped [of gs_barcode obs_unknown "''C9''" mplp0 extern_ok "- 1"]
  by (simp add: gs_barcode_def use_barcodes_def obs_unknown_def mplp0_def)



section \<open>Results about the double arithmetic\<close>

lemma round_dbl_nonneg:
  assumes "0 \<le> m"
  shows "round_dbl m e = PInf \<or> (\<exists>a q. round_dbl m e = Dbl a q \<and> 0 \<le> a)"
proof (cases "m = 0")
  case True
  then show ?thesis by (simp add: round_dbl_def)
next
  case False
  with assms have pos: "0 < m" by simp
  then have inf: "dbl_inf m = PInf" and sg: "sgn m = 1" by (simp_all add: dbl_inf_def)
  have div: "0 \<le> \<bar>m\<bar> div 2 ^ s" for s :: nat by (simp add: pos_imp_zdiv_nonneg_iff)
  show ?thesis
    using pos div by (auto simp: round_dbl_def Let_def inf sg)
qed

lemma dbl_less_zero:
  assumes "x = PInf \<or> (\<exists>a q. x = Dbl a q \<and> 0 \<le> a)"
  shows "\<not> dbl_less x (Dbl 0 e)" and "\<not> dbl_less x NaN"
  using assms by (auto simp: mult_less_0_iff)

lemma dbl_mult_zero: "dbl_mult (Dbl 0 e) y = Dbl 0 0 \<or> dbl_mult (Dbl 0 e) y = NaN"
  by (cases y) (simp_all add: round_dbl_def)

text \<open>
  With a total of zero the comparison is false for every \<^verbatim>\<open>min_maf\<close>, an infinity and
  NaN included: the product is zero or NaN, and no count is below either.
\<close>

lemma below_maf_no_total: "0 \<le> b \<Longrightarrow> \<not> below_maf b 0 maf"
proof -
  assume "0 \<le> b"
  then have b: "double_of_int b = PInf \<or> (\<exists>a q. double_of_int b = Dbl a q \<and> 0 \<le> a)"
    unfolding double_of_int_def by (rule round_dbl_nonneg)
  have "double_of_int 0 = Dbl 0 0" by (simp add: double_of_int_def round_dbl_def)
  with dbl_mult_zero [of 0 maf] dbl_less_zero [OF b] show ?thesis
    by (auto simp: below_maf_def)
qed

text \<open>
  The comparison on the example inputs, and at two places where rounding decides.
  \<open>5044031582654956 * 2^-54\<close> is the double nearest to 0.28: 25 times it rounds to the
  double above 7, so a count of 7 is below it. 10 times the double nearest to 0.1 rounds
  to 1, so a count of 1 is not below it.
\<close>

lemma below_maf_S1: "\<not> below_maf 1 3 (Dbl 0 0)"
  by code_simp

lemma below_maf_empty: "\<not> below_maf 0 0 (Dbl 0 0)"
  by code_simp

lemma below_maf_tenth: "below_maf 0 1 (Dbl 7205759403792794 (- 56))"
  by code_simp

lemma below_maf_rounds_up: "below_maf 7 25 (Dbl 5044031582654956 (- 54))"
  by code_simp

lemma below_maf_rounds_down: "\<not> below_maf 1 10 (Dbl 7205759403792794 (- 56))"
  by code_simp

section \<open>Results about \<^verbatim>\<open>csp_mplp_stat\<close>\<close>

lemma nth_sum5: "length xs = 5 \<Longrightarrow> (\<Sum>j\<leftarrow>[0..<5]. xs ! j) = sum_list (xs :: int list)"
proof -
  assume "length xs = 5"
  then have "map ((!) xs) [0..<5] = xs" using map_nth [of xs] by simp
  then show ?thesis by simp
qed

lemma best_idx_mem: "best_idx c k is \<in> insert k (set is)"
  by (induction "is" arbitrary: k) auto

lemma infer_allele_props:
  "0 \<le> fst (infer_allele c) \<and> fst (infer_allele c) < 4 \<and> 0 \<le> snd (infer_allele c)
   \<and> snd (infer_allele c) < 4 \<and> fst (infer_allele c) \<noteq> snd (infer_allele c)"
proof -
  define r where "r = best_idx c 0 [1, 2, 3]"
  have r: "r \<in> {0, 1, 2, 3}" using best_idx_mem [of c 0 "[1, 2, 3]"] by (auto simp: r_def)
  define others where "others = filter (\<lambda>i. i \<noteq> r) [0, 1, 2, 3]"
  define a where "a = best_idx c (hd others) (tl others)"
  have "others \<noteq> []" using r by (auto simp: others_def)
  then have "a \<in> set others"
    using best_idx_mem [of c "hd others" "tl others"] by (cases others) (auto simp: a_def)
  then have a: "a \<in> {0, 1, 2, 3}" "a \<noteq> r"
    unfolding others_def by (auto simp del: filter.simps)
  have "infer_allele c = (int r, int a)"
    by (simp add: infer_allele_def Let_def r_def others_def a_def)
  with r a show ?thesis by auto
qed

lemma sum5_bound:
  assumes "length xs = 5" "\<forall>x \<in> set xs. (0::int) \<le> x" "i < 5" "j < 5" "i \<noteq> j"
  shows "xs ! i + xs ! j \<le> sum_list xs"
proof -
  from assms(1) obtain a b c d e where xs: "xs = [a, b, c, d, e]"
    by (auto simp: length_Suc_conv numeral_eq_Suc)
  from assms(3) have i: "i = 0 \<or> i = 1 \<or> i = 2 \<or> i = 3 \<or> i = 4" by arith
  from assms(4) have j: "j = 0 \<or> j = 1 \<or> j = 2 \<or> j = 3 \<or> j = 4" by arith
  from assms(2) have nn: "0 \<le> a" "0 \<le> b" "0 \<le> c" "0 \<le> d" "0 \<le> e" by (simp_all add: xs)
  from i j assms(5) nn show ?thesis by (auto simp: xs)
qed

lemma nth5_nonneg:
  assumes "length xs = 5" "\<forall>x \<in> set xs. (0::int) \<le> x" "i < 5"
  shows "0 \<le> xs ! i"
  using assms by simp


lemma length_add5 [simp]: "length (add5 g c) = 5"
  by (simp add: add5_def)

lemma list5: "length xs = 5 \<Longrightarrow> \<exists>a b c d e. xs = [a, b, c, d, e]"
  by (auto simp: length_Suc_conv numeral_eq_Suc)

lemma upt5: "[0..<5] = [0, 1, 2, 3, 4]"
  by (simp add: upt_rec)

lemma sum_list_add5:
  assumes "length g = 5" "length c = 5"
  shows "sum_list (add5 g c) = sum_list g + sum_list c"
proof -
  from list5 [OF assms(1)] obtain g0 g1 g2 g3 g4 where g: "g = [g0, g1, g2, g3, g4]" by blast
  from list5 [OF assms(2)] obtain c0 c1 c2 c3 c4 where c: "c = [c0, c1, c2, c3, c4]" by blast
  show ?thesis by (simp add: add5_def upt5 g c)
qed

lemma add5_nonneg:
  assumes "length g = 5" "length c = 5" "\<forall>x \<in> set g. 0 \<le> x" "\<forall>x \<in> set c. 0 \<le> x"
  shows "\<forall>x \<in> set (add5 g c). 0 \<le> x"
proof -
  from list5 [OF assms(1)] obtain g0 g1 g2 g3 g4 where g: "g = [g0, g1, g2, g3, g4]" by blast
  from list5 [OF assms(2)] obtain c0 c1 c2 c3 c4 where c: "c = [c0, c1, c2, c3, c4]" by blast
  from assms(3,4) show ?thesis by (simp add: add5_def upt5 g c)
qed

lemma stat_sum_Cons:
  "stat_sum ((n, plp) # cs) g =
     ((n, plp\<lparr>tc := tc plp + (\<Sum>j\<leftarrow>[0..<5]. bc plp ! j)\<rparr>) # fst (stat_sum cs (add5 g (bc plp))),
      snd (stat_sum cs (add5 g (bc plp))))"
  by (simp add: Let_def split: prod.splits)

lemma stat_sum_cells:
  "fst (stat_sum cs g) = map (\<lambda>(n, plp). (n, plp\<lparr>tc := tc plp + (\<Sum>j\<leftarrow>[0..<5]. bc plp ! j)\<rparr>)) cs"
proof (induction cs arbitrary: g)
  case Nil
  show ?case by simp
next
  case (Cons c cs)
  obtain n plp where c: "c = (n, plp)" by (cases c)
  show ?case unfolding c stat_sum_Cons by (simp add: Cons.IH)
qed

lemma stat_sum_length: "length g = 5 \<Longrightarrow> length (snd (stat_sum cs g)) = 5"
proof (induction cs arbitrary: g)
  case Nil
  then show ?case by simp
next
  case (Cons c cs)
  obtain n plp where c: "c = (n, plp)" by (cases c)
  show ?case unfolding c stat_sum_Cons by (simp add: Cons.IH)
qed

lemma stat_sum_total:
  "length g = 5 \<Longrightarrow> \<forall>(n, plp) \<in> set cs. length (bc plp) = 5 \<Longrightarrow>
   sum_list (snd (stat_sum cs g)) = sum_list g + (\<Sum>(n, plp)\<leftarrow>cs. sum_list (bc plp))"
proof (induction cs arbitrary: g)
  case Nil
  then show ?case by simp
next
  case (Cons c cs)
  obtain n plp where c: "c = (n, plp)" by (cases c)
  from Cons.prems(2) have len: "length (bc plp) = 5" and rest: "\<forall>(n, plp) \<in> set cs. length (bc plp) = 5"
    by (simp_all add: c)
  have "sum_list (snd (stat_sum cs (add5 g (bc plp))))
          = sum_list (add5 g (bc plp)) + (\<Sum>(n, plp)\<leftarrow>cs. sum_list (bc plp))"
    by (rule Cons.IH [OF _ rest]) simp
  then show ?case unfolding c stat_sum_Cons
    by (simp add: sum_list_add5 [OF Cons.prems(1) len])
qed

lemma stat_sum_nonneg:
  "length g = 5 \<Longrightarrow> \<forall>x \<in> set g. 0 \<le> x \<Longrightarrow>
   \<forall>(n, plp) \<in> set cs. length (bc plp) = 5 \<and> (\<forall>x \<in> set (bc plp). 0 \<le> x) \<Longrightarrow>
   \<forall>x \<in> set (snd (stat_sum cs g)). 0 \<le> x"
proof (induction cs arbitrary: g)
  case Nil
  then show ?case by simp
next
  case (Cons c cs)
  obtain n plp where c: "c = (n, plp)" by (cases c)
  from Cons.prems(3) have len: "length (bc plp) = 5" and nn: "\<forall>x \<in> set (bc plp). 0 \<le> x"
    and rest: "\<forall>(n, plp) \<in> set cs. length (bc plp) = 5 \<and> (\<forall>x \<in> set (bc plp). 0 \<le> x)"
    by (simp_all add: c)
  have "\<forall>x \<in> set (snd (stat_sum cs (add5 g (bc plp)))). 0 \<le> x"
    by (rule Cons.IH [OF _ add5_nonneg [OF Cons.prems(1) len Cons.prems(2) nn] rest]) simp
  then show ?case unfolding c stat_sum_Cons by simp
qed

lemma stat_cells_Cons:
  "stat_cells X gs r a ((n, plp) # cs) (na, nd, no) =
     (let p3 = plp\<lparr>ad := bc plp ! nat a, dp := bc plp ! nat r + bc plp ! nat a,
                    oth := tc plp - (bc plp ! nat r + bc plp ! nat a)\<rparr>;
          nr = (if bc plp ! nat a \<noteq> 0 then na + 1 else na,
                if bc plp ! nat r + bc plp ! nat a \<noteq> 0 then nd + 1 else nd,
                if tc plp - (bc plp ! nat r + bc plp ! nat a) \<noteq> 0 then no + 1 else no)
      in if is_genotype gs \<and> \<not> geno_ok X p3 r a (double_gl gs) then (- 1, (n, p3) # cs, nr)
         else (fst (stat_cells X gs r a cs nr), (n, p3) # fst (snd (stat_cells X gs r a cs nr)),
               snd (snd (stat_cells X gs r a cs nr))))"
  by (simp add: Let_def split: prod.splits)

lemma stat_cells_ret: "fst (stat_cells X gs r a cs nr) = 0 \<or> fst (stat_cells X gs r a cs nr) = - 1"
proof (induction cs arbitrary: nr)
  case Nil
  show ?case by simp
next
  case (Cons c cs)
  obtain n plp where c: "c = (n, plp)" by (cases c)
  obtain na nd no where nr: "nr = (na, nd, no)" by (cases nr)
  show ?case unfolding c nr stat_cells_Cons using Cons.IH by (simp add: Let_def)
qed

lemma stat_cells_no_genotype:
  "\<not> is_genotype gs \<Longrightarrow> fst (stat_cells X gs r a cs nr) = 0"
proof (induction cs arbitrary: nr)
  case Nil
  show ?case by simp
next
  case (Cons c cs)
  obtain n plp where c: "c = (n, plp)" by (cases c)
  obtain na nd no where nr: "nr = (na, nd, no)" by (cases nr)
  show ?case unfolding c nr stat_cells_Cons using Cons by (simp add: Let_def)
qed

lemma stat_cells_bc:
  "map (\<lambda>(n, plp). (n, bc plp, tc plp)) (fst (snd (stat_cells X gs r a cs nr)))
     = map (\<lambda>(n, plp). (n, bc plp, tc plp)) cs"
proof (induction cs arbitrary: nr)
  case Nil
  show ?case by simp
next
  case (Cons c cs)
  obtain n plp where c: "c = (n, plp)" by (cases c)
  obtain na nd no where nr: "nr = (na, nd, no)" by (cases nr)
  show ?case unfolding c nr stat_cells_Cons using Cons.IH by (simp add: Let_def)
qed

lemma csp_mplp_stat_bc_tc:
  assumes "csp_mplp_stat X m gs = (ret, m')"
  shows "bc m' = snd (stat_sum (hsg m) (bc m))"
    and "tc m' = tc m + (\<Sum>i\<leftarrow>[0..<5]. snd (stat_sum (hsg m) (bc m)) ! i)"
  using assms
  by (auto simp: csp_mplp_stat_def Let_def split: prod.splits if_splits)

lemma stat_cells_retD:
  "stat_cells X gs r a cs nr = (ret, cs', nr') \<Longrightarrow> ret = 0 \<or> ret = - 1"
  using stat_cells_ret [of X gs r a cs nr] by simp

lemma stat_cells_no_genotypeD:
  "stat_cells X gs r a cs nr = (ret, cs', nr') \<Longrightarrow> \<not> is_genotype gs \<Longrightarrow> ret = 0"
  using stat_cells_no_genotype [of gs X r a cs nr] by simp

lemma stat_cells_bcD:
  "stat_cells X gs r a cs nr = (ret, cs', nr') \<Longrightarrow>
   map (\<lambda>(n, plp). (n, bc plp, tc plp)) cs' = map (\<lambda>(n, plp). (n, bc plp, tc plp)) cs"
  using stat_cells_bc [of X gs r a cs nr] by simp

lemma csp_mplp_stat_ret:
  assumes "csp_mplp_stat X m gs = (ret, m')"
  shows "ret = 0 \<or> ret = 1 \<or> ret = - 1" and "\<not> is_genotype gs \<longrightarrow> ret = 0 \<or> ret = 1"
  using assms
  by (auto simp: csp_mplp_stat_def Let_def split: prod.splits if_splits
           dest: stat_cells_retD stat_cells_no_genotypeD)

lemma csp_mplp_stat_skip_iff:
  assumes "csp_mplp_stat X m gs = (ret, m')"
  shows "(ret = 1) = (tc m' < size_t_of_int (min_count gs)
      \<or> below_maf (bc m' ! nat (snd (infer_allele (bc m')))) (tc m') (min_maf gs))"
  using assms
  by (auto simp: csp_mplp_stat_def Let_def split: prod.splits if_splits
           dest: stat_cells_retD)

lemma csp_mplp_stat_passed:
  assumes "csp_mplp_stat X m gs = (ret, m')" "ret \<noteq> 1"
  shows "inf_rid m' = fst (infer_allele (bc m'))"
    and "inf_aid m' = snd (infer_allele (bc m'))"
    and "ref_idx m' = (if ref_idx m < 0 \<or> alt_idx m < 0 then inf_rid m' else ref_idx m)"
    and "alt_idx m' = (if ref_idx m < 0 \<or> alt_idx m < 0 then inf_aid m' else alt_idx m)"
    and "ad m' = bc m' ! nat (alt_idx m')"
    and "dp m' = bc m' ! nat (ref_idx m') + ad m'"
    and "oth m' = tc m' - dp m'"
  using assms
  by (auto simp: csp_mplp_stat_def Let_def split: prod.splits if_splits)

lemma csp_mplp_stat_cells:
  assumes "csp_mplp_stat X m gs = (ret, m')"
  shows "map (\<lambda>(n, plp). (n, bc plp)) (hsg m') = map (\<lambda>(n, plp). (n, bc plp)) (hsg m)"
proof -
  have sum: "map (\<lambda>(n, plp). (n, bc plp)) (fst (stat_sum cs g)) = map (\<lambda>(n, plp). (n, bc plp)) cs"
    for cs g
    by (simp add: stat_sum_cells case_prod_unfold)
  have cells: "map (\<lambda>(n, plp). (n, bc plp)) cs' = map (\<lambda>(n, plp). (n, bc plp)) cs"
    if "stat_cells X gs r a cs nr = (ret, cs', nr')" for r a cs nr ret cs' nr'
  proof -
    from stat_cells_bcD [OF that]
    have "map (\<lambda>(n, b, t). (n, b)) (map (\<lambda>(n, plp). (n, bc plp, tc plp)) cs')
        = map (\<lambda>(n, b, t). (n, b)) (map (\<lambda>(n, plp). (n, bc plp, tc plp)) cs)" by simp
    then show ?thesis by (simp add: case_prod_unfold comp_def)
  qed
  from assms show ?thesis
    using sum [of "hsg m" "bc m"]
    by (auto simp: csp_mplp_stat_def Let_def split: prod.splits if_splits dest!: cells)
qed

lemma push_plp_fields:
  assumes "push_plp X p m k gs = Ret (r, m')"
  shows "bc m' = bc m \<and> tc m' = tc m \<and> ref_idx m' = ref_idx m \<and> alt_idx m' = alt_idx m"
  using assms
  by (auto simp: push_plp_def Let_def split: option.splits if_splits)

lemma push_plp_shape:
  assumes "push_plp X p m k gs = Ret (r, m')"
  obtains (same) "hsg m' = hsg m"
    | (reg) plp' where "hsg m' = (hsg m)[k := (fst (hsg m ! k), plp_register p plp')]"
        "bc plp' = bc (snd (hsg m ! k))" "tc plp' = tc (snd (hsg m ! k))"
  using assms
  by (auto simp: push_plp_def Let_def split: option.splits if_splits)

lemma plp_register_counts:
  assumes "length (bc plp) = 5" "\<forall>x \<in> set (bc plp). 0 \<le> x"
  shows "length (bc (plp_register p plp)) = 5" and "\<forall>x \<in> set (bc (plp_register p plp)). 0 \<le> x"
    and "tc (plp_register p plp) = tc plp"
proof -
  have idx: "seq_nt16_idx2int (base p) < length (bc plp)"
    using assms(1) seq_nt16_idx2int_lt [of "base p"] by simp
  show "length (bc (plp_register p plp)) = 5" using assms(1) by (simp add: bc_plp_register)
  show "tc (plp_register p plp) = tc plp" by (simp add: plp_register_def Let_def)
  from assms(2) idx have "0 \<le> bc plp ! seq_nt16_idx2int (base p) + 1" by (simp add: add_nonneg_nonneg)
  with assms(2) show "\<forall>x \<in> set (bc (plp_register p plp)). 0 \<le> x"
    unfolding bc_plp_register by (auto dest!: in_set_updateD)
qed

lemma push_plp_cleared:
  assumes "site_cleared m" "k < length (hsg m)" "push_plp X p m k gs = Ret (r, m')"
  shows "site_cleared m'"
  using assms(3)
proof (cases rule: push_plp_shape)
  case same
  with assms(1) push_plp_fields [OF assms(3)] show ?thesis by (simp add: site_cleared_def)
next
  case (reg plp')
  let ?plp = "snd (hsg m ! k)"
  from assms(1,2) have plp: "length (bc ?plp) = 5" "\<forall>x \<in> set (bc ?plp). 0 \<le> x" "tc ?plp = 0"
    unfolding site_cleared_def using nth_mem [of k "hsg m"] by (auto simp: case_prod_unfold)
  with reg(2,3) have plp': "length (bc plp') = 5" "\<forall>x \<in> set (bc plp'). 0 \<le> x" "tc plp' = 0"
    by simp_all
  note new = plp_register_counts [OF plp'(1,2), of p]
  from assms(1) have cells: "\<forall>(n, plp) \<in> set (hsg m). length (bc plp) = 5
      \<and> (\<forall>x \<in> set (bc plp). 0 \<le> x) \<and> tc plp = 0"
    by (simp add: site_cleared_def)
  have "\<forall>(n, plp) \<in> set (hsg m'). length (bc plp) = 5 \<and> (\<forall>x \<in> set (bc plp). 0 \<le> x) \<and> tc plp = 0"
    unfolding reg(1) using cells new plp'(3) by (auto dest!: in_set_updateD)
  with assms(1) push_plp_fields [OF assms(3)] show ?thesis by (simp add: site_cleared_def)
qed

lemma csp_mplp_push_cleared:
  assumes "site_cleared m \<and> ref_idx m = R \<and> alt_idx m = A" "csp_mplp_push X p m sid gs = Ret (r, m')"
  shows "site_cleared m' \<and> ref_idx m' = R \<and> alt_idx m' = A"
  using assms(2)
proof (cases rule: csp_mplp_push_cases)
  case unknown
  with assms(1) show ?thesis by simp
next
  case nomode
  with assms(1) show ?thesis by simp
next
  case (pushed k)
  with assms(1) push_plp_cleared [OF _ pushed] push_plp_fields [OF pushed(2)] show ?thesis by simp
qed

lemma pileup_reads_cleared:
  assumes "site_cleared m" "pileup_reads X pos es p m n gs = Ret (st, p', m', n')"
  shows "site_cleared m' \<and> ref_idx m' = ref_idx m \<and> alt_idx m' = alt_idx m"
proof (rule pileup_reads_inv [where I = "\<lambda>m'. site_cleared m' \<and> ref_idx m' = ref_idx m \<and> alt_idx m' = alt_idx m"])
  show "site_cleared m1' \<and> ref_idx m1' = ref_idx m \<and> alt_idx m1' = alt_idx m"
    if "site_cleared m1 \<and> ref_idx m1 = ref_idx m \<and> alt_idx m1 = alt_idx m"
      "csp_mplp_push X q m1 sid gs = Ret (r', m1')" for q m1 sid r' m1'
    using that by (rule csp_mplp_push_cleared)
  show "site_cleared m \<and> ref_idx m = ref_idx m \<and> alt_idx m = alt_idx m" using assms(1) by simp
  show "pileup_reads X pos es p m n gs = Ret (st, p', m', n')" by (rule assms(2))
qed

lemma site_cleared_reset: "site_cleared (csp_mplp_reset m)"
  by (auto simp: site_cleared_def csp_mplp_reset_def csp_plp_reset_def)

lemma sum_cells_cong:
  fixes cs cs' :: "(string \<times> csp_plp) list"
  assumes "map (\<lambda>(n, plp). (n, bc plp)) cs' = map (\<lambda>(n, plp). (n, bc plp)) cs"
  shows "(\<Sum>(n, plp)\<leftarrow>cs'. F (bc plp)) = (\<Sum>(n, plp)\<leftarrow>cs. F (bc plp))"
proof -
  have eq: "(\<Sum>(n, plp)\<leftarrow>xs. F (bc plp)) = sum_list (map (F \<circ> snd) (map (\<lambda>(n, plp). (n, bc plp)) xs))"
    for xs :: "(string \<times> csp_plp) list"
    by (simp add: comp_def case_prod_unfold)
  have "(\<Sum>(n, plp)\<leftarrow>cs'. F (bc plp)) = sum_list (map (F \<circ> snd) (map (\<lambda>(n, plp). (n, bc plp)) cs'))"
    by (rule eq)
  also have "\<dots> = sum_list (map (F \<circ> snd) (map (\<lambda>(n, plp). (n, bc plp)) cs))"
    by (simp only: assms)
  also have "\<dots> = (\<Sum>(n, plp)\<leftarrow>cs. F (bc plp))" by (rule eq [symmetric])
  finally show ?thesis .
qed

lemma sum_cells_nth:
  assumes "\<forall>(n, plp) \<in> set cs. length (bc plp) = 5"
  shows "(\<Sum>(n, plp)\<leftarrow>cs. \<Sum>j\<leftarrow>[0..<5]. bc plp ! j) = (\<Sum>(n, plp)\<leftarrow>cs. sum_list (bc plp))"
proof -
  have "map (\<lambda>(n, plp). \<Sum>j\<leftarrow>[0..<5]. bc plp ! j) cs = map (\<lambda>(n, plp). sum_list (bc plp)) cs"
    using assms by (auto simp: nth_sum5)
  then show ?thesis by (rule arg_cong)
qed

lemma csp_mplp_stat_cleared:
  assumes clr: "site_cleared m" and unset: "ref_idx m < 0 \<or> alt_idx m < 0"
    and stat: "csp_mplp_stat X m gs = (0, m')"
  shows "ad m' = bc m' ! nat (alt_idx m') \<and> dp m' = bc m' ! nat (ref_idx m') + ad m'
       \<and> oth m' = tc m' - dp m'
       \<and> tc m' = (\<Sum>(n, plp)\<leftarrow>hsg m'. \<Sum>j\<leftarrow>[0..<5]. bc plp ! j)
       \<and> ad m' + (dp m' - ad m') + oth m' = tc m' \<and> ad m' \<le> dp m' \<and> dp m' \<le> tc m'
       \<and> ref_idx m' \<noteq> alt_idx m'"
proof -
  define G where "G = snd (stat_sum (hsg m) (bc m))"
  from clr have g0: "bc m = [0, 0, 0, 0, 0]" "tc m = 0"
    and cells: "\<forall>(n, plp) \<in> set (hsg m). length (bc plp) = 5 \<and> (\<forall>x \<in> set (bc plp). 0 \<le> x)"
    and cells_len: "\<forall>(n, plp) \<in> set (hsg m). length (bc plp) = 5"
    by (auto simp: site_cleared_def)
  have len0: "length (bc m) = 5" and nn0: "\<forall>x \<in> set (bc m). 0 \<le> x" by (simp_all add: g0)
  have G_len: "length G = 5" unfolding G_def by (rule stat_sum_length [OF len0])
  have G_nn: "\<forall>x \<in> set G. 0 \<le> x" unfolding G_def by (rule stat_sum_nonneg [OF len0 nn0 cells])
  have G_sum: "sum_list G = (\<Sum>(n, plp)\<leftarrow>hsg m. sum_list (bc plp))"
    unfolding G_def using stat_sum_total [OF len0 cells_len] by (simp add: g0)
  from csp_mplp_stat_bc_tc(1) [OF stat] have bc': "bc m' = G" by (simp add: G_def)
  have tc': "tc m' = sum_list G"
    using csp_mplp_stat_bc_tc(2) [OF stat] nth_sum5 [OF G_len] by (simp add: G_def g0(2))
  have ne1: "(0::int) \<noteq> 1" by simp
  note passed = csp_mplp_stat_passed [OF stat ne1]
  from unset passed(1-4) have ra: "ref_idx m' = fst (infer_allele G)" "alt_idx m' = snd (infer_allele G)"
    by (simp_all add: bc')
  from infer_allele_props [of G] ra
  have idx: "0 \<le> ref_idx m'" "ref_idx m' < 4" "0 \<le> alt_idx m'" "alt_idx m' < 4"
      "ref_idx m' \<noteq> alt_idx m'"
    by simp_all
  then have nat_idx: "nat (ref_idx m') < 5" "nat (alt_idx m') < 5" "nat (ref_idx m') \<noteq> nat (alt_idx m')"
    by simp_all
  have ad: "ad m' = G ! nat (alt_idx m')" and dp: "dp m' = G ! nat (ref_idx m') + ad m'"
    and oth: "oth m' = tc m' - dp m'"
    using passed(5-7) by (simp_all add: bc')
  have ref_nn: "0 \<le> G ! nat (ref_idx m')" by (rule nth5_nonneg [OF G_len G_nn nat_idx(1)])
  have dp_le: "dp m' \<le> tc m'"
    unfolding dp ad tc' by (rule sum5_bound [OF G_len G_nn nat_idx])
  have "(\<Sum>(n, plp)\<leftarrow>hsg m'. \<Sum>j\<leftarrow>[0..<5]. bc plp ! j)
      = (\<Sum>(n, plp)\<leftarrow>hsg m. \<Sum>j\<leftarrow>[0..<5]. bc plp ! j)"
    by (rule sum_cells_cong [OF csp_mplp_stat_cells [OF stat]])
  also have "\<dots> = (\<Sum>(n, plp)\<leftarrow>hsg m. sum_list (bc plp))" by (rule sum_cells_nth [OF cells_len])
  finally have total: "tc m' = (\<Sum>(n, plp)\<leftarrow>hsg m'. \<Sum>j\<leftarrow>[0..<5]. bc plp ! j)"
    by (simp add: tc' G_sum)
  from ad dp oth ref_nn dp_le total idx(5) show ?thesis by (simp add: bc')
qed

lemma pileup_snp_emitD:
  assumes "pileup_snp X pos mp_plp p m gs = Ret (0, p', m')"
  obtains m1 n where
    "pileup_reads X pos (plp_entries mp_plp) p (m\<lparr>ref_idx := - 1, alt_idx := - 1\<rparr>) 0 gs = Ret (0, p', m1, n)"
    "\<not> int n < size_t_of_int (min_count gs)"
    "csp_mplp_stat X m1 gs = (0, m')"
  using assms
  by (auto simp: pileup_snp_def split: outcome.splits prod.splits if_splits)

text \<open>
  C1. A site is emitted when \<^verbatim>\<open>pileup_snp\<close> returns 0, which it does only when
  \<^verbatim>\<open>csp_mplp_stat\<close> has returned 0 on the state that the pushes built from a cleared
  site with \<^verbatim>\<open>ref_idx = alt_idx = -1\<close>. For every such site the scalars of the site
  satisfy \<^verbatim>\<open>ad = bc[alt_idx]\<close>, \<^verbatim>\<open>dp = bc[ref_idx] + ad\<close> and \<^verbatim>\<open>oth = tc - dp\<close>, where \<^verbatim>\<open>tc\<close>
  is the sum over all cell groups and all five base indices of the counts of the cell
  groups; hence \<^verbatim>\<open>ad + (dp - ad) + oth = tc\<close>, \<^verbatim>\<open>ad \<le> dp \<le> tc\<close>, and the reference and
  alternate indices differ.
\<close>

theorem C1_emitted_site_counts:
  assumes "site_cleared m" and "pileup_snp X pos mp_plp p m gs = Ret (0, p', m')"
  shows "ad m' = bc m' ! nat (alt_idx m') \<and> dp m' = bc m' ! nat (ref_idx m') + ad m'
       \<and> oth m' = tc m' - dp m'
       \<and> tc m' = (\<Sum>(n, plp)\<leftarrow>hsg m'. \<Sum>j\<leftarrow>[0..<5]. bc plp ! j)
       \<and> ad m' + (dp m' - ad m') + oth m' = tc m' \<and> ad m' \<le> dp m' \<and> dp m' \<le> tc m'
       \<and> ref_idx m' \<noteq> alt_idx m'"
proof -
  from assms(2) obtain m1 n where
    loop: "pileup_reads X pos (plp_entries mp_plp) p (m\<lparr>ref_idx := - 1, alt_idx := - 1\<rparr>) 0 gs
             = Ret (0, p', m1, n)"
    and stat: "csp_mplp_stat X m1 gs = (0, m')"
    by (rule pileup_snp_emitD)
  from assms(1) have "site_cleared (m\<lparr>ref_idx := - 1, alt_idx := - 1\<rparr>)"
    by (simp add: site_cleared_def)
  from pileup_reads_cleared [OF this loop]
  have "site_cleared m1" "ref_idx m1 < 0 \<or> alt_idx m1 < 0" by simp_all
  then show ?thesis using stat by (rule csp_mplp_stat_cleared)
qed

lemma plp_entries_S1: "plp_entries site_S1 =
   [(0, \<lparr>bp_b = read_A, bp_qpos = 0, bp_is_del = False, bp_is_refskip = False\<rparr>),
    (0, \<lparr>bp_b = read_A, bp_qpos = 0, bp_is_del = False, bp_is_refskip = False\<rparr>),
    (0, \<lparr>bp_b = read_T, bp_qpos = 0, bp_is_del = False, bp_is_refskip = False\<rparr>)]"
  by (simp add: plp_entries_def site_S1_def)

lemma pileup_snp_S1:
  "pileup_snp extern_ok 100 site_S1 pileup0 mplp0 gs_barcode = Ret (0, obs_S1, mplp_S1)"
  by (simp add: pileup_snp_def plp_entries_S1 pileup_read_def csp_mplp_push_def push_plp_def
        plp_register_def csp_mplp_stat_def infer_allele_def add5_def upt5 size_t_of_int_def
        gs_barcode_def use_umi_def use_barcodes_def use_sid_def get_bam_aux_str_def
        read_A_def read_T_def mplp0_def plp0_def extern_ok_def pileup0_def seq_nt16_idx2int_def
        obs_S1_def mplp_S1_def below_maf_S1 Let_def)

lemma site_cleared_mplp0: "site_cleared mplp0"
  by (simp add: site_cleared_def mplp0_def plp0_def)

theorem C1_emitted_site_counts_witness:
  "site_cleared mplp0
   \<and> pileup_snp extern_ok 100 site_S1 pileup0 mplp0 gs_barcode = Ret (0, obs_S1, mplp_S1)
   \<and> ref_idx mplp_S1 = 0 \<and> alt_idx mplp_S1 = 3
   \<and> ad mplp_S1 = 1 \<and> dp mplp_S1 = 3 \<and> oth mplp_S1 = 0 \<and> tc mplp_S1 = 3
   \<and> ad mplp_S1 \<le> dp mplp_S1 \<and> dp mplp_S1 \<le> tc mplp_S1 \<and> ref_idx mplp_S1 \<noteq> alt_idx mplp_S1"
  using C1_emitted_site_counts [OF site_cleared_mplp0 pileup_snp_S1] site_cleared_mplp0 pileup_snp_S1
  by (simp add: mplp_S1_def)

lemma sum_list_map_update:
  "k < length xs \<Longrightarrow> sum_list (map f (xs[k := y])) = sum_list (map f xs) - f (xs ! k) + (f y :: int)"
proof (induction xs arbitrary: k)
  case Nil
  then show ?case by simp
next
  case (Cons x xs)
  then show ?case by (cases k) auto
qed

lemma push_plp_ret:
  assumes "push_plp X p m k gs = Ret (r, m')"
  shows "r = 0 \<or> hsg m' = hsg m"
  using assms
  by (auto simp: push_plp_def Let_def split: option.splits if_splits)

lemma push_plp_total:
  assumes "site_cleared m" "k < length (hsg m)" "push_plp X p m k gs = Ret (r, m')"
  shows "(\<Sum>(n, plp)\<leftarrow>hsg m'. sum_list (bc plp))
           \<le> (\<Sum>(n, plp)\<leftarrow>hsg m. sum_list (bc plp)) + (if r = 0 then 1 else 0)"
  using assms(3)
proof (cases rule: push_plp_shape)
  case same
  then show ?thesis by simp
next
  case (reg plp')
  let ?plp = "snd (hsg m ! k)"
  from reg(1) push_plp_ret [OF assms(3)] assms(2) have r: "r = 0 \<or> hsg m' = hsg m" by simp
  from assms(1,2) have len: "length (bc ?plp) = 5"
    unfolding site_cleared_def using nth_mem [of k "hsg m"] by (auto simp: case_prod_unfold)
  then have idx: "seq_nt16_idx2int (base p) < length (bc plp')"
    using reg(2) seq_nt16_idx2int_lt [of "base p"] by simp
  have "sum_list (bc (plp_register p plp')) = sum_list (bc plp') + 1"
    unfolding bc_plp_register by (rule sum_list_incr [OF idx])
  then have new: "sum_list (bc (plp_register p plp')) = sum_list (bc ?plp) + 1"
    by (simp add: reg(2))
  have "(\<Sum>(n, plp)\<leftarrow>hsg m'. sum_list (bc plp))
      = (\<Sum>(n, plp)\<leftarrow>hsg m. sum_list (bc plp)) + 1"
    unfolding reg(1)
    by (simp add: sum_list_map_update [OF assms(2)] new case_prod_unfold)
  with r show ?thesis by auto
qed

lemma csp_mplp_push_total:
  assumes "site_cleared m" "csp_mplp_push X p m sid gs = Ret (r, m')"
  shows "(\<Sum>(n, plp)\<leftarrow>hsg m'. sum_list (bc plp))
           \<le> (\<Sum>(n, plp)\<leftarrow>hsg m. sum_list (bc plp)) + (if r = 0 then 1 else 0)"
  using assms(2)
proof (cases rule: csp_mplp_push_cases)
  case unknown
  then show ?thesis by simp
next
  case nomode
  then show ?thesis by simp
next
  case (pushed k)
  with assms(1) show ?thesis by (blast intro: push_plp_total)
qed

lemma pileup_reads_total:
  "site_cleared m \<Longrightarrow> pileup_reads X pos es p m n gs = Ret (st, p', m', n') \<Longrightarrow>
   (\<Sum>(n, plp)\<leftarrow>hsg m'. sum_list (bc plp)) + int n
     \<le> (\<Sum>(n, plp)\<leftarrow>hsg m. sum_list (bc plp)) + int n'"
proof (induction es arbitrary: p m n)
  case Nil
  then show ?case by simp
next
  case (Cons e es)
  obtain i bp where e: "e = (i, bp)" by (cases e)
  show ?case
  proof (cases "pileup_read pos bp p gs")
    case (Ret x)
    obtain st0 p0 where x: "x = (st0, p0)" by (cases x)
    show ?thesis
    proof (cases "st0 = 0 \<and> (use_barcodes gs \<or> use_sid gs)")
      case True
      show ?thesis
      proof (cases "csp_mplp_push X p0 m (if use_barcodes gs then - 1 else int i) gs")
        case push: (Ret y)
        obtain r m1 where y: "y = (r, m1)" by (cases y)
        note step = csp_mplp_push_total [OF Cons.prems(1) push [unfolded y]]
        from csp_mplp_push_cleared [OF _ push [unfolded y], of "ref_idx m" "alt_idx m"] Cons.prems(1)
        have clr: "site_cleared m1" by simp
        show ?thesis
        proof (cases "r < 0")
          case neg: True
          with Cons.prems(2) True Ret x push y have "m' = m1" "n' = n" by (simp_all add: e)
          with step neg show ?thesis by simp
        next
          case False
          with Cons.prems(2) True Ret x push y
          have "pileup_reads X pos es p0 m1 (if r = 0 then n + 1 else n) gs = Ret (st, p', m', n')"
            by (simp add: e)
          from Cons.IH [OF clr this] step show ?thesis by (simp split: if_splits)
        qed
      qed (use Cons.prems(2) True Ret x in \<open>simp_all add: e\<close>)
    next
      case False
      with Cons.prems(2) Ret x
      consider "m' = m" "n' = n" | "pileup_reads X pos es p0 m n gs = Ret (st, p', m', n')"
        by (auto simp: e split: if_splits)
      then show ?thesis
      proof cases
        case 1
        then show ?thesis by simp
      next
        case 2
        from Cons.IH [OF Cons.prems(1) 2] show ?thesis .
      qed
    qed
  qed (use Cons.prems(2) in \<open>simp_all add: e\<close>)
qed

lemma stat_sum_bc_cong:
  fixes cs cs' :: "(string \<times> csp_plp) list"
  shows "map (\<lambda>(n, plp). (n, bc plp)) cs' = map (\<lambda>(n, plp). (n, bc plp)) cs \<Longrightarrow>
         snd (stat_sum cs' g) = snd (stat_sum cs g)"
proof (induction cs arbitrary: cs' g)
  case Nil
  then show ?case by simp
next
  case (Cons c cs)
  obtain n plp where c: "c = (n, plp)" by (cases c)
  from Cons.prems obtain c' cs1 where cs': "cs' = c' # cs1" by (cases cs') auto
  obtain n' plp' where c': "c' = (n', plp')" by (cases c')
  from Cons.prems have eq: "bc plp' = bc plp"
    and rest: "map (\<lambda>(n, plp). (n, bc plp)) cs1 = map (\<lambda>(n, plp). (n, bc plp)) cs"
    by (simp_all add: cs' c c')
  show ?case unfolding cs' c c' stat_sum_Cons by (simp add: eq Cons.IH [OF rest])
qed

lemma pileup_snp_skip_iff:
  assumes clr: "site_cleared m" and zero: "(\<Sum>(n, plp)\<leftarrow>hsg m. sum_list (bc plp)) = 0"
    and count: "0 \<le> min_count gs"
    and run: "pileup_snp X pos mp_plp p m gs = Ret (r, p', m')" and noerr: "r \<noteq> - 1"
  shows "(r = 1) =
     ((\<Sum>(n, plp)\<leftarrow>hsg m'. sum_list (bc plp)) < min_count gs
      \<or> below_maf (snd (stat_sum (hsg m') [0, 0, 0, 0, 0])
                      ! nat (snd (infer_allele (snd (stat_sum (hsg m') [0, 0, 0, 0, 0])))))
            (\<Sum>(n, plp)\<leftarrow>hsg m'. sum_list (bc plp)) (min_maf gs))"
proof -
  let ?m0 = "m\<lparr>ref_idx := - 1, alt_idx := - 1\<rparr>"
  from clr have clr0: "site_cleared ?m0" by (simp add: site_cleared_def)
  from count have conv: "size_t_of_int (min_count gs) = min_count gs"
    by (simp add: size_t_of_int_def)
  from run obtain st m1 n where
    loop: "pileup_reads X pos (plp_entries mp_plp) p ?m0 0 gs = Ret (st, p', m1, n)"
    by (auto simp: pileup_snp_def split: outcome.splits prod.splits if_splits)
  from run loop noerr have st: "st = 0" by (auto simp: pileup_snp_def split: if_splits)
  from pileup_reads_cleared [OF clr0 loop] have clr1: "site_cleared m1" by simp
  from pileup_reads_total [OF clr0 loop] zero
  have tot: "(\<Sum>(n, plp)\<leftarrow>hsg m1. sum_list (bc plp)) \<le> int n" by simp
  show ?thesis
  proof (cases "int n < min_count gs")
    case True
    with run loop st have "r = 1" "m' = m1" by (simp_all add: pileup_snp_def conv)
    with tot True show ?thesis by simp
  next
    case False
    obtain ret m2 where stat: "csp_mplp_stat X m1 gs = (ret, m2)" by (cases "csp_mplp_stat X m1 gs")
    from run loop st False stat
    have r: "r = (if ret \<noteq> 0 then (if 0 < ret then 1 else - 1) else 0)" and m': "m' = m2"
      by (auto simp: pileup_snp_def conv split: if_splits)
    from csp_mplp_stat_ret(1) [OF stat] r have r1: "(r = 1) = (ret = 1)" by auto
    from clr1 have g0: "bc m1 = [0, 0, 0, 0, 0]" "tc m1 = 0"
      and cells_len: "\<forall>(n, plp) \<in> set (hsg m1). length (bc plp) = 5"
      by (auto simp: site_cleared_def)
    define G where "G = snd (stat_sum (hsg m1) [0, 0, 0, 0, 0])"
    have G_len: "length G = 5" unfolding G_def by (rule stat_sum_length) simp
    have G_sum: "sum_list G = (\<Sum>(n, plp)\<leftarrow>hsg m1. sum_list (bc plp))"
      unfolding G_def using stat_sum_total [OF _ cells_len, of "[0, 0, 0, 0, 0]"] by simp
    from csp_mplp_stat_bc_tc(1) [OF stat] have bc2: "bc m2 = G" by (simp add: G_def g0)
    have tc2: "tc m2 = sum_list G"
      using csp_mplp_stat_bc_tc(2) [OF stat] nth_sum5 [OF G_len] by (simp add: G_def g0)
    note same = csp_mplp_stat_cells [OF stat]
    have G': "snd (stat_sum (hsg m2) [0, 0, 0, 0, 0]) = G"
      unfolding G_def by (rule stat_sum_bc_cong [OF same])
    have T': "(\<Sum>(n, plp)\<leftarrow>hsg m2. sum_list (bc plp)) = sum_list G"
      unfolding G_sum by (rule sum_cells_cong [OF same])
    from csp_mplp_stat_skip_iff [OF stat]
    have "(ret = 1) = (sum_list G < min_count gs
        \<or> below_maf (G ! nat (snd (infer_allele G))) (sum_list G) (min_maf gs))"
      by (simp add: conv bc2 tc2)
    with r1 show ?thesis by (simp add: m' G' T')
  qed
qed

text \<open>
  C2. \<^verbatim>\<open>csp_mplp_stat\<close> returns the skip result 1 exactly when \<^verbatim>\<open>tc < min_count\<close> or
  \<^verbatim>\<open>bc[inf_aid] < tc * min_maf\<close>, for a count threshold that is not negative; the second
  comparison is the one C makes, in double arithmetic (\<open>below_maf\<close>). Here \<^verbatim>\<open>bc\<close> and
  \<^verbatim>\<open>tc\<close> are the sums over the cell groups that the function has just formed, and
  \<^verbatim>\<open>inf_aid\<close> is the alternate allele inferred from these sums. Otherwise it returns 0,
  or -1 when genotyping is on and a likelihood computation fails. In the worker, a site
  that reached \<^verbatim>\<open>csp_mplp_stat\<close> leaves its totals and its output untouched on 1, and
  adds one site to them on 0. The earlier test \<^verbatim>\<open>npushed < min_count\<close> of \<^verbatim>\<open>pileup_snp\<close>
  does not change the condition: on a site that starts with no counts, \<^verbatim>\<open>pileup_snp\<close>
  returns 1 rather than 0 exactly when the sum of the counts of its cell groups is below
  \<^verbatim>\<open>min_count\<close> or the inferred alternate allele is below the fraction.
\<close>

theorem C2_skip_exactly_when:
  assumes stat: "csp_mplp_stat X m gs = (ret, m')" and count: "0 \<le> min_count gs"
  shows "((ret = 1) = (tc m' < min_count gs
            \<or> below_maf (bc m' ! nat (snd (infer_allele (bc m')))) (tc m') (min_maf gs)))
       \<and> bc m' = snd (stat_sum (hsg m) (bc m)) \<and> tc m' = tc m + (\<Sum>i\<leftarrow>[0..<5]. bc m' ! i)
       \<and> (ret \<noteq> 1 \<longrightarrow> inf_aid m' = snd (infer_allele (bc m')))
       \<and> (ret = 0 \<or> ret = 1 \<or> ret = - 1 \<and> is_genotype gs)
       \<and> (pileup_reads X pos (plp_entries mp_plp) p (m0\<lparr>ref_idx := - 1, alt_idx := - 1\<rparr>) 0 gs
              = Ret (0, p1, m, n) \<and> \<not> int n < size_t_of_int (min_count gs)
           \<longrightarrow> core_site X gs pos mp_plp (d, p, m0) =
                 (if ret = 1 then Ret (Some (d, p1, csp_mplp_reset m'))
                  else if ret = 0 then
                    Ret (Some (d\<lparr>d_ns := d_ns d + 1, d_nr_ad := d_nr_ad d + nr_ad m',
                                  d_nr_dp := d_nr_dp d + nr_dp m', d_nr_oth := d_nr_oth d + nr_oth m',
                                  d_out := d_out d @ [(pos, m')]\<rparr>, p1, csp_mplp_reset m'))
                  else Ret None))
       \<and> (site_cleared m0 \<and> (\<Sum>(n, plp)\<leftarrow>hsg m0. sum_list (bc plp)) = 0
            \<and> pileup_snp X pos mp_plp p m0 gs = Ret (r, p2, m2) \<and> r \<noteq> - 1
           \<longrightarrow> (r = 1) =
                 ((\<Sum>(n, plp)\<leftarrow>hsg m2. sum_list (bc plp)) < min_count gs
                  \<or> below_maf (snd (stat_sum (hsg m2) [0, 0, 0, 0, 0])
                          ! nat (snd (infer_allele (snd (stat_sum (hsg m2) [0, 0, 0, 0, 0])))))
                      (\<Sum>(n, plp)\<leftarrow>hsg m2. sum_list (bc plp)) (min_maf gs)))"
proof -
  from count have conv: "size_t_of_int (min_count gs) = min_count gs"
    by (simp add: size_t_of_int_def)
  have skip: "(ret = 1) = (tc m' < min_count gs
      \<or> below_maf (bc m' ! nat (snd (infer_allele (bc m')))) (tc m') (min_maf gs))"
    using csp_mplp_stat_skip_iff [OF stat] by (simp add: conv)
  note sums = csp_mplp_stat_bc_tc [OF stat]
  have total: "tc m' = tc m + (\<Sum>i\<leftarrow>[0..<5]. bc m' ! i)"
    using sums by simp
  have aid: "inf_aid m' = snd (infer_allele (bc m'))" if "ret \<noteq> 1"
    using csp_mplp_stat_passed(2) [OF stat that] .
  have rets: "ret = 0 \<or> ret = 1 \<or> ret = - 1 \<and> is_genotype gs"
    using csp_mplp_stat_ret [OF stat] by auto
  have site: "core_site X gs pos mp_plp (d, p, m0) =
      (if ret = 1 then Ret (Some (d, p1, csp_mplp_reset m'))
       else if ret = 0 then
         Ret (Some (d\<lparr>d_ns := d_ns d + 1, d_nr_ad := d_nr_ad d + nr_ad m',
                       d_nr_dp := d_nr_dp d + nr_dp m', d_nr_oth := d_nr_oth d + nr_oth m',
                       d_out := d_out d @ [(pos, m')]\<rparr>, p1, csp_mplp_reset m'))
       else Ret None)"
    if "pileup_reads X pos (plp_entries mp_plp) p (m0\<lparr>ref_idx := - 1, alt_idx := - 1\<rparr>) 0 gs
              = Ret (0, p1, m, n) \<and> \<not> int n < size_t_of_int (min_count gs)"
    using that rets by (auto simp: core_site_def pileup_snp_def stat)
  have snp: "(r = 1) =
      ((\<Sum>(n, plp)\<leftarrow>hsg m2. sum_list (bc plp)) < min_count gs
       \<or> below_maf (snd (stat_sum (hsg m2) [0, 0, 0, 0, 0])
               ! nat (snd (infer_allele (snd (stat_sum (hsg m2) [0, 0, 0, 0, 0])))))
           (\<Sum>(n, plp)\<leftarrow>hsg m2. sum_list (bc plp)) (min_maf gs))"
    if "site_cleared m0 \<and> (\<Sum>(n, plp)\<leftarrow>hsg m0. sum_list (bc plp)) = 0
            \<and> pileup_snp X pos mp_plp p m0 gs = Ret (r, p2, m2) \<and> r \<noteq> - 1"
  proof -
    from that have clr: "site_cleared m0"
      and zero: "(\<Sum>(n, plp)\<leftarrow>hsg m0. sum_list (bc plp)) = 0"
      and run: "pileup_snp X pos mp_plp p m0 gs = Ret (r, p2, m2)" and noerr: "r \<noteq> - 1"
      by simp_all
    show ?thesis by (rule pileup_snp_skip_iff [OF clr zero count run noerr])
  qed
  from skip sums(1) total aid rets site snp show ?thesis by blast
qed

lemma stat_mplp1: "csp_mplp_stat extern_ok mplp1 gs_maf = (1, mplp1_skipped)"
  by (simp add: csp_mplp_stat_def infer_allele_def add5_def upt5 size_t_of_int_def
        gs_maf_def gs_barcode_def mplp1_def mplp0_def plp0_def mplp1_skipped_def
        below_maf_tenth Let_def)

text \<open>
  The two sites at which rounding decides: 25 times the threshold is the double above 7,
  and the site with 7 of 25 reads on the alternate allele is skipped; 10 times the
  threshold is the double 1, and the site with 1 of 10 reads on it is not.
\<close>

lemma stat_mplp_18_7: "fst (csp_mplp_stat extern_ok mplp_18_7 gs_maf28) = 1"
  by (simp add: csp_mplp_stat_def infer_allele_def add5_def upt5 size_t_of_int_def
        gs_maf28_def gs_barcode_def mplp_18_7_def mplp0_def plp0_def
        below_maf_rounds_up Let_def)

lemma stat_mplp_9_1: "fst (csp_mplp_stat extern_ok mplp_9_1 gs_maf) = 0"
  by (simp add: csp_mplp_stat_def infer_allele_def add5_def upt5 size_t_of_int_def
        gs_maf_def gs_barcode_def mplp_9_1_def mplp0_def plp0_def
        below_maf_rounds_down Let_def)

theorem C2_skip_exactly_when_witness:
  "csp_mplp_stat extern_ok mplp1 gs_maf = (1, mplp1_skipped) \<and> 0 \<le> min_count gs_maf
   \<and> \<not> tc mplp1_skipped < min_count gs_maf
   \<and> below_maf (bc mplp1_skipped ! nat (snd (infer_allele (bc mplp1_skipped))))
         (tc mplp1_skipped) (min_maf gs_maf)"
proof -
  have count: "0 \<le> min_count gs_maf" by (simp add: gs_maf_def gs_barcode_def)
  have gate: "\<not> tc mplp1_skipped < min_count gs_maf"
    by (simp add: gs_maf_def gs_barcode_def mplp1_skipped_def)
  from C2_skip_exactly_when [OF stat_mplp1 count, THEN conjunct1] gate
  have "below_maf (bc mplp1_skipped ! nat (snd (infer_allele (bc mplp1_skipped))))
         (tc mplp1_skipped) (min_maf gs_maf)"
    by simp
  with stat_mplp1 count gate show ?thesis by simp
qed

lemma plp_entries_unknown: "plp_entries site_unknown =
   [(0, \<lparr>bp_b = read_unknown, bp_qpos = 0, bp_is_del = False, bp_is_refskip = False\<rparr>)]"
  by (simp add: plp_entries_def site_unknown_def)

lemma pileup_snp_unknown:
  "pileup_snp extern_ok 100 site_unknown pileup0 mplp0 gs_count0 = Ret (0, obs_empty, mplp_empty)"
  by (simp add: pileup_snp_def plp_entries_unknown pileup_read_def csp_mplp_push_def
        csp_mplp_stat_def infer_allele_def add5_def upt5 size_t_of_int_def
        gs_count0_def gs_barcode_def use_umi_def use_barcodes_def use_sid_def get_bam_aux_str_def
        read_A_def read_unknown_def mplp0_def plp0_def extern_ok_def pileup0_def
        obs_empty_def mplp_empty_def below_maf_empty Let_def)

text \<open>
  C7, as the claim states it, fails: with \<^verbatim>\<open>min_count = 0\<close>, a site whose only read
  carries a barcode of no cell group has no retained read, so \<^verbatim>\<open>tc = 0\<close>; neither
  \<^verbatim>\<open>pileup_snp\<close> nor \<^verbatim>\<open>csp_mplp_stat\<close> skips it, and the worker emits it.
\<close>

theorem C7_zero_count_site_emitted_counterexample:
  "min_count gs_count0 = 0 \<and> site_cleared mplp0
   \<and> pileup_snp extern_ok 100 site_unknown pileup0 mplp0 gs_count0 = Ret (0, obs_empty, mplp_empty)
   \<and> tc mplp_empty < 1
   \<and> core_site extern_ok gs_count0 100 site_unknown (d0, pileup0, mplp0)
       = Ret (Some (\<lparr>d_ns = 1, d_nr_ad = 0, d_nr_dp = 0, d_nr_oth = 0, d_out = [(100, mplp_empty)]\<rparr>,
                    obs_empty, csp_mplp_reset mplp_empty))"
  by (simp add: site_cleared_mplp0 core_site_def pileup_snp_unknown d0_def)
    (simp add: gs_count0_def gs_barcode_def mplp_empty_def mplp0_def)

text \<open>
  C7, amended: for a count threshold that is not negative, \<^verbatim>\<open>csp_mplp_stat\<close> skips a
  site whose total \<^verbatim>\<open>tc\<close> is less than 1 exactly when \<^verbatim>\<open>min_count\<close> is at least 1; and
  when \<^verbatim>\<open>min_count\<close> is at least 1, every site that \<^verbatim>\<open>pileup_snp\<close> lets through has
  \<^verbatim>\<open>tc \<ge> min_count\<close>, so a site with \<^verbatim>\<open>tc < 1\<close> is never emitted.
\<close>

theorem C7_skipped_iff_min_count_positive:
  "(0 \<le> min_count gs \<and> site_cleared m \<and> csp_mplp_stat X m gs = (ret, m') \<and> tc m' < 1
      \<longrightarrow> (ret = 1) = (1 \<le> min_count gs))
   \<and> (1 \<le> min_count gs \<and> pileup_snp X pos mp_plp p m0 gs = Ret (0, p1, m1)
      \<longrightarrow> min_count gs \<le> tc m1)"
proof -
  have stat: "(ret = 1) = (1 \<le> min_count gs)"
    if "0 \<le> min_count gs \<and> site_cleared m \<and> csp_mplp_stat X m gs = (ret, m') \<and> tc m' < 1"
  proof -
    from that have count: "0 \<le> min_count gs" and clr: "site_cleared m"
      and st: "csp_mplp_stat X m gs = (ret, m')" and low: "tc m' < 1"
      by simp_all
    define G where "G = snd (stat_sum (hsg m) (bc m))"
    from clr have g0: "bc m = [0, 0, 0, 0, 0]" "tc m = 0"
      and cells: "\<forall>(n, plp) \<in> set (hsg m). length (bc plp) = 5 \<and> (\<forall>x \<in> set (bc plp). 0 \<le> x)"
      by (auto simp: site_cleared_def)
    have len0: "length (bc m) = 5" and nn0: "\<forall>x \<in> set (bc m). 0 \<le> x" by (simp_all add: g0)
    have G_len: "length G = 5" unfolding G_def by (rule stat_sum_length [OF len0])
    have G_nn: "\<forall>x \<in> set G. 0 \<le> x" unfolding G_def by (rule stat_sum_nonneg [OF len0 nn0 cells])
    from csp_mplp_stat_bc_tc(1) [OF st] have bc': "bc m' = G" by (simp add: G_def)
    have tc': "tc m' = sum_list G"
      using csp_mplp_stat_bc_tc(2) [OF st] nth_sum5 [OF G_len] by (simp add: G_def g0(2))
    from G_nn have "0 \<le> sum_list G" by (simp add: sum_list_nonneg)
    with low tc' have zero: "tc m' = 0" by simp
    from infer_allele_props [of G] have "nat (snd (infer_allele G)) < 5" by linarith
    from nth5_nonneg [OF G_len G_nn this] have "0 \<le> bc m' ! nat (snd (infer_allele (bc m')))"
      by (simp add: bc')
    then have maf: "\<not> below_maf (bc m' ! nat (snd (infer_allele (bc m')))) (tc m') (min_maf gs)"
      by (simp add: zero below_maf_no_total)
    from count have conv: "size_t_of_int (min_count gs) = min_count gs"
      by (simp add: size_t_of_int_def)
    from csp_mplp_stat_skip_iff [OF st] maf have "(ret = 1) = (tc m' < min_count gs)"
      by (simp add: conv)
    then show ?thesis unfolding zero by linarith
  qed
  have emitted: "min_count gs \<le> tc m1"
    if "1 \<le> min_count gs \<and> pileup_snp X pos mp_plp p m0 gs = Ret (0, p1, m1)"
  proof -
    from that obtain m n where st: "csp_mplp_stat X m gs = (0, m1)"
      by (auto elim: pileup_snp_emitD)
    from that have conv: "size_t_of_int (min_count gs) = min_count gs"
      by (simp add: size_t_of_int_def)
    from csp_mplp_stat_skip_iff [OF st] show ?thesis by (simp add: conv)
  qed
  from stat emitted show ?thesis by blast
qed

lemma stat_mplp0: "csp_mplp_stat extern_ok mplp0 gs_barcode = (1, mplp0)"
  by (simp add: csp_mplp_stat_def add5_def upt5 size_t_of_int_def
        gs_barcode_def mplp0_def plp0_def Let_def)

theorem C7_skipped_iff_min_count_positive_witness:
  "0 \<le> min_count gs_barcode \<and> site_cleared mplp0
   \<and> csp_mplp_stat extern_ok mplp0 gs_barcode = (1, mplp0) \<and> tc mplp0 < 1
   \<and> 1 \<le> min_count gs_barcode
   \<and> pileup_snp extern_ok 100 site_S1 pileup0 mplp0 gs_barcode = Ret (0, obs_S1, mplp_S1)
   \<and> min_count gs_barcode \<le> tc mplp_S1"
proof -
  have count: "0 \<le> min_count gs_barcode" "1 \<le> min_count gs_barcode"
    by (simp_all add: gs_barcode_def)
  have low: "tc mplp0 < 1" by (simp add: mplp0_def)
  from C7_skipped_iff_min_count_positive [of gs_barcode mplp0 extern_ok 1 mplp0 100 site_S1
      pileup0 mplp0 obs_S1 mplp_S1]
    count low site_cleared_mplp0 stat_mplp0 pileup_snp_S1
  show ?thesis by simp
qed

section \<open>Results about the merge\<close>

lemma spec_merged_rows_Nil [simp]: "spec_merged_rows k [] = []"
  by (simp add: spec_merged_rows_def)

lemma spec_merged_rows_Cons:
  "spec_merged_rows k (l # ls) =
     (if l = [] then spec_merged_rows (k + 1) ls else Rec k l # spec_merged_rows k ls)"
proof -
  have upt: "[0..<length (l # ls)] = 0 # map Suc [0..<length ls]"
    by (simp add: upt_conv_Cons map_Suc_upt del: upt_Suc)
  show ?thesis
    unfolding spec_merged_rows_def upt
    by (simp add: comp_def cong: if_cong)
qed

lemma merge_lines_spec:
  "jf_isopen out \<Longrightarrow>
   merge_lines ls k m out =
     (k + length (filter (\<lambda>l. l = []) ls), m + length (filter (\<lambda>l. l \<noteq> []) ls),
      out\<lparr>jf_lines := jf_lines out @ spec_merged_rows k ls\<rparr>)"
proof (induction ls arbitrary: k m out)
  case Nil
  then show ?case by simp
next
  case (Cons l ls)
  show ?case
  proof (cases "l = []")
    case True
    with Cons.IH [OF Cons.prems, of "k + 1" m] show ?thesis
      by (simp add: spec_merged_rows_Cons)
  next
    case False
    have "jf_isopen (jf_printf out (Rec k l))" using Cons.prems by (simp add: jf_printf_def)
    from Cons.IH [OF this, of k "m + 1"] False Cons.prems show ?thesis
      by (simp add: spec_merged_rows_Cons jf_printf_def)
  qed
qed

lemma spec_merged_rows_append:
  "spec_merged_rows k (xs @ ys) =
     spec_merged_rows k xs @ spec_merged_rows (k + length (filter (\<lambda>l. l = []) xs)) ys"
  by (induction xs arbitrary: k) (simp_all add: spec_merged_rows_Cons)

lemma merge_files_spec:
  "jf_isopen out \<Longrightarrow> \<forall>f \<in> set fs. 0 < jf_open_ret f \<Longrightarrow>
   merge_files seen fs k m out ns0 nr0 =
     \<lparr>mr_ret = 0, mr_i = length seen + length fs,
      mr_ns = k + length (filter (\<lambda>l. l = []) (concat (map jf_lines fs))) - 1,
      mr_nr = m + length (filter (\<lambda>l. l \<noteq> []) (concat (map jf_lines fs))),
      mr_out = out\<lparr>jf_lines := jf_lines out @ spec_merged_rows k (concat (map jf_lines fs))\<rparr>,
      mr_in = seen @ map (\<lambda>f. jf_close (snd (jf_open f))) fs\<rparr>"
proof (induction fs arbitrary: seen k m out)
  case Nil
  then show ?case by simp
next
  case (Cons f fs)
  from Cons.prems(2) have f: "0 < jf_open_ret f" and rest: "\<forall>f \<in> set fs. 0 < jf_open_ret f"
    by simp_all
  let ?out = "out\<lparr>jf_lines := jf_lines out @ spec_merged_rows k (jf_lines f)\<rparr>"
  have lines: "merge_lines (jf_lines f) k m out =
      (k + length (filter (\<lambda>l. l = []) (jf_lines f)),
       m + length (filter (\<lambda>l. l \<noteq> []) (jf_lines f)), ?out)"
    by (rule merge_lines_spec [OF Cons.prems(1)])
  have open': "jf_isopen ?out" using Cons.prems(1) by simp
  show ?case
    using f
    by (simp add: jf_open_def lines Cons.IH [OF open' rest] spec_merged_rows_append add.assoc)
qed

text \<open>
  C5. When the output can be written and every shard file can be opened, \<^verbatim>\<open>merge_mtx\<close>
  succeeds (\<^verbatim>\<open>*ret = 0\<close>, all files visited) and appends to the output one line per
  non-empty input line, in shard order, each prefixed with the row counter: 1 plus the
  number of empty lines before it in the concatenated input. It reports in \<^verbatim>\<open>*ns\<close> the
  number of empty lines seen (the final \<open>k - 1\<close>) and in \<^verbatim>\<open>*nr\<close> the number of non-empty
  lines copied.
\<close>

theorem C5_merge_mtx_rows:
  assumes "jf_isopen out \<or> 0 < jf_open_ret out" and "\<forall>f \<in> set ins. 0 < jf_open_ret f"
  shows "mr_ret (merge_mtx out ins ns0 nr0) = 0
       \<and> mr_i (merge_mtx out ins ns0 nr0) = length ins
       \<and> mr_ns (merge_mtx out ins ns0 nr0) = length (filter (\<lambda>l. l = []) (concat (map jf_lines ins)))
       \<and> mr_nr (merge_mtx out ins ns0 nr0) = length (filter (\<lambda>l. l \<noteq> []) (concat (map jf_lines ins)))
       \<and> jf_lines (mr_out (merge_mtx out ins ns0 nr0))
           = jf_lines out @ spec_merged_rows 1 (concat (map jf_lines ins))"
proof (cases "jf_isopen out")
  case True
  then show ?thesis
    by (simp add: merge_mtx_def merge_files_spec [OF True assms(2)])
next
  case False
  with assms(1) have pos: "0 < jf_open_ret out" by simp
  then have open': "jf_isopen (snd (jf_open out))" by (simp add: jf_open_def)
  from False pos show ?thesis
    by (simp add: merge_mtx_def merge_files_spec [OF open' assms(2)]) (simp add: jf_open_def)
qed

theorem C5_merge_mtx_rows_witness:
  "(jf_isopen final0 \<or> 0 < jf_open_ret final0) \<and> 0 < jf_open_ret shard0 \<and> 0 < jf_open_ret shard1
   \<and> mr_ret (merge_mtx final0 [shard0, shard1] 0 0) = 0
   \<and> mr_ns (merge_mtx final0 [shard0, shard1] 0 0) = 3
   \<and> mr_nr (merge_mtx final0 [shard0, shard1] 0 0) = 4
   \<and> jf_lines (mr_out (merge_mtx final0 [shard0, shard1] 0 0))
        = [Rec 1 ''1 2'', Rec 2 ''2 1'', Rec 3 ''1 1'', Rec 3 ''2 3'']"
proof -
  have ready: "jf_isopen final0 \<or> 0 < jf_open_ret final0" by (simp add: final0_def)
  have shards: "\<forall>f \<in> set [shard0, shard1]. 0 < jf_open_ret f" by (simp add: shard0_def shard1_def)
  from C5_merge_mtx_rows [OF ready shards, of 0 0] ready shards show ?thesis
    by (simp add: shard0_def shard1_def final0_def spec_merged_rows_Cons)
qed

lemma merge_files_ret:
  "0 \<le> mr_ret (merge_files seen fs k m out ns0 nr0) \<Longrightarrow> \<forall>f \<in> set fs. 0 < jf_open_ret f"
proof (induction fs arbitrary: seen k m out)
  case Nil
  show ?case by simp
next
  case (Cons f fs)
  show ?case
  proof (cases "0 < jf_open_ret f")
    case True
    with Cons.prems have "0 \<le> mr_ret (merge_files (seen @ [jf_close (snd (jf_open f))]) fs
        (fst (merge_lines (jf_lines f) k m out)) (fst (snd (merge_lines (jf_lines f) k m out)))
        (snd (snd (merge_lines (jf_lines f) k m out))) ns0 nr0)"
      by (simp add: jf_open_def split: prod.splits)
    from Cons.IH [OF this] True show ?thesis by simp
  next
    case False
    with Cons.prems show ?thesis by (simp add: jf_open_def)
  qed
qed

lemma merge_block_SomeD:
  assumes "merge_block out tmp ns nsample nr nm = Some (f, nm')"
  shows "jf_lines f = jf_lines out @ Head (int ns) nsample nr # spec_merged_rows 1 (concat (map jf_lines tmp))"
    and "length (filter (\<lambda>l. l = []) (concat (map jf_lines tmp))) = ns"
    and "int (length (filter (\<lambda>l. l \<noteq> []) (concat (map jf_lines tmp)))) = nr"
    and "nm' = (ns, nat nr)"
proof -
  define out1 where "out1 = snd (jf_open out)"
  define out2 where "out2 = jf_printf out1 (Head (int ns) nsample nr)"
  define res where "res = merge_mtx out2 tmp (fst nm) (snd nm)"
  from assms have ok: "0 \<le> mr_ret res" "mr_ns res = ns" "int (mr_nr res) = nr"
    and f: "f = jf_close (mr_out res)" and nm': "nm' = (mr_ns res, mr_nr res)"
    by (auto simp: merge_block_def Let_def res_def out2_def out1_def split: prod.splits if_splits)
  have opened: "jf_isopen out1"
  proof (rule ccontr)
    assume closed: "\<not> jf_isopen out1"
    then have "\<not> jf_isopen out2" "jf_open_ret out2 \<le> 0"
      by (auto simp: out2_def out1_def jf_printf_def jf_open_def)
    then have "mr_ret res = - 2" by (simp add: res_def merge_mtx_def jf_open_def)
    with ok(1) show False by simp
  qed
  then have open2: "jf_isopen out2" and lines2: "jf_lines out2 = jf_lines out @ [Head (int ns) nsample nr]"
    by (simp_all add: out2_def out1_def jf_printf_def jf_open_def)
  from open2 have res_eq: "res = merge_files [] tmp 1 0 out2 (fst nm) (snd nm)"
    by (simp add: res_def merge_mtx_def)
  with ok(1) have all: "\<forall>f \<in> set tmp. 0 < jf_open_ret f" by (simp add: merge_files_ret)
  note spec = merge_files_spec [OF open2 all, of "[]" 1 0 "fst nm" "snd nm"]
  have res_spec: "res = \<lparr>mr_ret = 0, mr_i = length ([] :: string jfile list) + length tmp,
      mr_ns = 1 + length (filter (\<lambda>l. l = []) (concat (map jf_lines tmp))) - 1,
      mr_nr = 0 + length (filter (\<lambda>l. l \<noteq> []) (concat (map jf_lines tmp))),
      mr_out = out2\<lparr>jf_lines := jf_lines out2 @ spec_merged_rows 1 (concat (map jf_lines tmp))\<rparr>,
      mr_in = [] @ map (\<lambda>f. jf_close (snd (jf_open f))) tmp\<rparr>"
    unfolding res_eq by (rule spec)
  from ok(2) show "length (filter (\<lambda>l. l = []) (concat (map jf_lines tmp))) = ns"
    by (simp add: res_spec)
  from ok(3) show nr: "int (length (filter (\<lambda>l. l \<noteq> []) (concat (map jf_lines tmp)))) = nr"
    by (simp add: res_spec)
  show "jf_lines f = jf_lines out @ Head (int ns) nsample nr # spec_merged_rows 1 (concat (map jf_lines tmp))"
    by (simp add: f res_spec jf_close_def lines2)
  from ok(2,3) show "nm' = (ns, nat nr)" by (auto simp: nm')
qed

text \<open>
  C6. A merge block of \<^verbatim>\<open>csp_pileup\<close> leaves through \<^verbatim>\<open>fail\<close> exactly when the final file
  cannot be opened, \<^verbatim>\<open>merge_mtx\<close> reports an error, the merged site count differs from
  the sum of the shards' \<^verbatim>\<open>ns\<close>, or the merged record count differs from the sum of the
  shards' record counts; a block that fails makes the whole merge stage fail, and the
  later matrices are not merged. When the stage succeeds, each final file consists of
  the header with exactly the precomputed sums followed by the merged body, and the
  shard files hold as many site terminators and records as the workers reported.
\<close>

theorem C6_merge_stage_verified:
  fixes td :: "thread_data list"
  defines "sum_ns \<equiv> (\<Sum>d\<leftarrow>td. d_ns d)"
    and "sum_ad \<equiv> (\<Sum>d\<leftarrow>td. d_nr_ad d)"
    and "sum_dp \<equiv> (\<Sum>d\<leftarrow>td. d_nr_dp d)"
    and "sum_oth \<equiv> (\<Sum>d\<leftarrow>td. d_nr_oth d)"
  shows "((merge_block out tmp n nsample nr nm = None) =
            (fst (jf_open out) < 0
             \<or> mr_ret (merge_mtx (jf_printf (snd (jf_open out)) (Head (int n) nsample nr)) tmp
                         (fst nm) (snd nm)) < 0
             \<or> mr_ns (merge_mtx (jf_printf (snd (jf_open out)) (Head (int n) nsample nr)) tmp
                         (fst nm) (snd nm)) \<noteq> n
             \<or> int (mr_nr (merge_mtx (jf_printf (snd (jf_open out)) (Head (int n) nsample nr)) tmp
                         (fst nm) (snd nm))) \<noteq> nr))
       \<and> (merge_block out_ad tmp_ad sum_ns nsample sum_ad nm = None
            \<longrightarrow> merge_stage td nsample out_ad tmp_ad out_dp tmp_dp out_oth tmp_oth nm = None)
       \<and> (merge_block out_ad tmp_ad sum_ns nsample sum_ad nm = Some (a, nm1)
            \<and> merge_block out_dp tmp_dp sum_ns nsample sum_dp nm1 = None
            \<longrightarrow> merge_stage td nsample out_ad tmp_ad out_dp tmp_dp out_oth tmp_oth nm = None)
       \<and> (merge_block out_ad tmp_ad sum_ns nsample sum_ad nm = Some (a, nm1)
            \<and> merge_block out_dp tmp_dp sum_ns nsample sum_dp nm1 = Some (b, nm2)
            \<and> merge_block out_oth tmp_oth sum_ns nsample sum_oth nm2 = None
            \<longrightarrow> merge_stage td nsample out_ad tmp_ad out_dp tmp_dp out_oth tmp_oth nm = None)
       \<and> (merge_stage td nsample out_ad tmp_ad out_dp tmp_dp out_oth tmp_oth nm = Some (ad', dp', oth')
            \<longrightarrow> jf_lines ad' = jf_lines out_ad @ Head (int sum_ns) nsample sum_ad
                                  # spec_merged_rows 1 (concat (map jf_lines tmp_ad))
              \<and> jf_lines dp' = jf_lines out_dp @ Head (int sum_ns) nsample sum_dp
                                  # spec_merged_rows 1 (concat (map jf_lines tmp_dp))
              \<and> jf_lines oth' = jf_lines out_oth @ Head (int sum_ns) nsample sum_oth
                                  # spec_merged_rows 1 (concat (map jf_lines tmp_oth))
              \<and> length (filter (\<lambda>l. l = []) (concat (map jf_lines tmp_ad))) = sum_ns
              \<and> length (filter (\<lambda>l. l = []) (concat (map jf_lines tmp_dp))) = sum_ns
              \<and> length (filter (\<lambda>l. l = []) (concat (map jf_lines tmp_oth))) = sum_ns
              \<and> int (length (filter (\<lambda>l. l \<noteq> []) (concat (map jf_lines tmp_ad)))) = sum_ad
              \<and> int (length (filter (\<lambda>l. l \<noteq> []) (concat (map jf_lines tmp_dp)))) = sum_dp
              \<and> int (length (filter (\<lambda>l. l \<noteq> []) (concat (map jf_lines tmp_oth)))) = sum_oth)"
proof -
  have block: "(merge_block out tmp n nsample nr nm = None) =
            (fst (jf_open out) < 0
             \<or> mr_ret (merge_mtx (jf_printf (snd (jf_open out)) (Head (int n) nsample nr)) tmp
                         (fst nm) (snd nm)) < 0
             \<or> mr_ns (merge_mtx (jf_printf (snd (jf_open out)) (Head (int n) nsample nr)) tmp
                         (fst nm) (snd nm)) \<noteq> n
             \<or> int (mr_nr (merge_mtx (jf_printf (snd (jf_open out)) (Head (int n) nsample nr)) tmp
                         (fst nm) (snd nm))) \<noteq> nr)"
    by (simp add: merge_block_def Let_def split: prod.splits)
  have fail_ad: "merge_stage td nsample out_ad tmp_ad out_dp tmp_dp out_oth tmp_oth nm = None"
    if "merge_block out_ad tmp_ad sum_ns nsample sum_ad nm = None"
    using that by (simp add: merge_stage_def Let_def sum_ns_def sum_ad_def)
  have fail_dp: "merge_stage td nsample out_ad tmp_ad out_dp tmp_dp out_oth tmp_oth nm = None"
    if "merge_block out_ad tmp_ad sum_ns nsample sum_ad nm = Some (a, nm1)
            \<and> merge_block out_dp tmp_dp sum_ns nsample sum_dp nm1 = None"
    using that by (simp add: merge_stage_def Let_def sum_ns_def sum_ad_def sum_dp_def)
  have fail_oth: "merge_stage td nsample out_ad tmp_ad out_dp tmp_dp out_oth tmp_oth nm = None"
    if "merge_block out_ad tmp_ad sum_ns nsample sum_ad nm = Some (a, nm1)
            \<and> merge_block out_dp tmp_dp sum_ns nsample sum_dp nm1 = Some (b, nm2)
            \<and> merge_block out_oth tmp_oth sum_ns nsample sum_oth nm2 = None"
    using that by (simp add: merge_stage_def Let_def sum_ns_def sum_ad_def sum_dp_def sum_oth_def)
  have success: "jf_lines ad' = jf_lines out_ad @ Head (int sum_ns) nsample sum_ad
                                  # spec_merged_rows 1 (concat (map jf_lines tmp_ad))
              \<and> jf_lines dp' = jf_lines out_dp @ Head (int sum_ns) nsample sum_dp
                                  # spec_merged_rows 1 (concat (map jf_lines tmp_dp))
              \<and> jf_lines oth' = jf_lines out_oth @ Head (int sum_ns) nsample sum_oth
                                  # spec_merged_rows 1 (concat (map jf_lines tmp_oth))
              \<and> length (filter (\<lambda>l. l = []) (concat (map jf_lines tmp_ad))) = sum_ns
              \<and> length (filter (\<lambda>l. l = []) (concat (map jf_lines tmp_dp))) = sum_ns
              \<and> length (filter (\<lambda>l. l = []) (concat (map jf_lines tmp_oth))) = sum_ns
              \<and> int (length (filter (\<lambda>l. l \<noteq> []) (concat (map jf_lines tmp_ad)))) = sum_ad
              \<and> int (length (filter (\<lambda>l. l \<noteq> []) (concat (map jf_lines tmp_dp)))) = sum_dp
              \<and> int (length (filter (\<lambda>l. l \<noteq> []) (concat (map jf_lines tmp_oth)))) = sum_oth"
    if "merge_stage td nsample out_ad tmp_ad out_dp tmp_dp out_oth tmp_oth nm = Some (ad', dp', oth')"
  proof -
    from that obtain n1 n2 n3 where
      ad: "merge_block out_ad tmp_ad sum_ns nsample sum_ad nm = Some (ad', n1)"
      and dp: "merge_block out_dp tmp_dp sum_ns nsample sum_dp n1 = Some (dp', n2)"
      and oth: "merge_block out_oth tmp_oth sum_ns nsample sum_oth n2 = Some (oth', n3)"
      by (auto simp: merge_stage_def Let_def sum_ns_def sum_ad_def sum_dp_def sum_oth_def
               split: option.splits)
    from merge_block_SomeD(1-3) [OF ad] merge_block_SomeD(1-3) [OF dp] merge_block_SomeD(1-3) [OF oth]
    show ?thesis by simp
  qed
  from block fail_ad fail_dp fail_oth success show ?thesis by blast
qed

lemma merge_block_shards:
  "merge_block final0 [shard0, shard1] 3 2 4 nm
     = Some (\<lparr>jf_open_ret = 1, jf_isopen = False,
               jf_lines = [Head 3 2 4, Rec 1 ''1 2'', Rec 2 ''2 1'', Rec 3 ''1 1'', Rec 3 ''2 3'']\<rparr>, 3, 4)"
  by (simp add: merge_block_def merge_mtx_def jf_open_def jf_printf_def jf_close_def
        final0_def shard0_def shard1_def Let_def)

theorem C6_merge_stage_verified_witness:
  "merge_stage [td0, td1] 2 final0 [shard0, shard1] final0 [shard0, shard1] final0 [shard0, shard1] (0, 0)
     = Some (\<lparr>jf_open_ret = 1, jf_isopen = False,
               jf_lines = [Head 3 2 4, Rec 1 ''1 2'', Rec 2 ''2 1'', Rec 3 ''1 1'', Rec 3 ''2 3'']\<rparr>,
             \<lparr>jf_open_ret = 1, jf_isopen = False,
               jf_lines = [Head 3 2 4, Rec 1 ''1 2'', Rec 2 ''2 1'', Rec 3 ''1 1'', Rec 3 ''2 3'']\<rparr>,
             \<lparr>jf_open_ret = 1, jf_isopen = False,
               jf_lines = [Head 3 2 4, Rec 1 ''1 2'', Rec 2 ''2 1'', Rec 3 ''1 1'', Rec 3 ''2 3'']\<rparr>)
   \<and> length (filter (\<lambda>l. l = []) (concat (map jf_lines [shard0, shard1]))) = (\<Sum>d\<leftarrow>[td0, td1]. d_ns d)
   \<and> int (length (filter (\<lambda>l. l \<noteq> []) (concat (map jf_lines [shard0, shard1]))))
        = (\<Sum>d\<leftarrow>[td0, td1]. d_nr_ad d)"
proof -
  have stage: "merge_stage [td0, td1] 2 final0 [shard0, shard1] final0 [shard0, shard1] final0
      [shard0, shard1] (0, 0)
     = Some (\<lparr>jf_open_ret = 1, jf_isopen = False,
               jf_lines = [Head 3 2 4, Rec 1 ''1 2'', Rec 2 ''2 1'', Rec 3 ''1 1'', Rec 3 ''2 3'']\<rparr>,
             \<lparr>jf_open_ret = 1, jf_isopen = False,
               jf_lines = [Head 3 2 4, Rec 1 ''1 2'', Rec 2 ''2 1'', Rec 3 ''1 1'', Rec 3 ''2 3'']\<rparr>,
             \<lparr>jf_open_ret = 1, jf_isopen = False,
               jf_lines = [Head 3 2 4, Rec 1 ''1 2'', Rec 2 ''2 1'', Rec 3 ''1 1'', Rec 3 ''2 3'']\<rparr>)"
    by (simp add: merge_stage_def td0_def td1_def merge_block_shards)
  from C6_merge_stage_verified [THEN conjunct2, THEN conjunct2, THEN conjunct2, THEN conjunct2,
      rule_format, OF stage] stage
  show ?thesis by simp
qed

section \<open>Results about the setup loop\<close>

lemma setup_loop_counts:
  "ntd c \<le> mtd \<Longrightarrow>
   setup_loop mtd nin c =
     c\<lparr>ntfs := ntfs c + (mtd - ntd c), itrs_made := itrs_made c + (mtd - ntd c) * nin,
       titer_adv := titer_adv c + (mtd - ntd c), ntd := mtd\<rparr>"
proof (induction mtd nin c rule: setup_loop.induct)
  case (1 mtd nin c)
  show ?case
  proof (cases "ntd c < mtd")
    case True
    then have le: "ntd (setup_pass nin c) \<le> mtd" by (simp add: setup_pass_def)
    from True obtain j where j: "mtd - ntd c = Suc j" "mtd - Suc (ntd c) = j"
      by (cases "mtd - ntd c") auto
    have "setup_loop mtd nin c = setup_loop mtd nin (setup_pass nin c)"
      using True by (subst setup_loop.simps) simp
    also note "1.IH" [OF True le]
    finally show ?thesis by (simp add: setup_pass_def j)
  next
    case False
    with "1.prems" have "ntd c = mtd" by simp
    then show ?thesis by (subst setup_loop.simps) simp
  qed
qed

text \<open>
  C9. The code does not do what the claim says. After the setup loop over \<open>mtd\<close> shards,
  started with all counters at zero, \<open>mtd\<close> file arrays are recorded and \<open>mtd * nin\<close>
  iterators have been created, but \<^verbatim>\<open>ntiter\<close> is still 0: the statement
  \<^verbatim>\<open>titer[titer++] = iter\<close> never increments it. The cleanup loops, bounded by
  \<^verbatim>\<open>ntiter\<close>, destroy no iterator.
\<close>

theorem C9_ntiter_stays_zero:
  "ntd (setup_loop mtd nin \<lparr>ntd = 0, ntfs = 0, ntiter = 0, titer_adv = 0, itrs_made = 0\<rparr>) = mtd
   \<and> ntfs (setup_loop mtd nin \<lparr>ntd = 0, ntfs = 0, ntiter = 0, titer_adv = 0, itrs_made = 0\<rparr>) = mtd
   \<and> itrs_made (setup_loop mtd nin \<lparr>ntd = 0, ntfs = 0, ntiter = 0, titer_adv = 0, itrs_made = 0\<rparr>)
        = mtd * nin
   \<and> ntiter (setup_loop mtd nin \<lparr>ntd = 0, ntfs = 0, ntiter = 0, titer_adv = 0, itrs_made = 0\<rparr>) = 0
   \<and> itrs_destroyed nin
        (setup_loop mtd nin \<lparr>ntd = 0, ntfs = 0, ntiter = 0, titer_adv = 0, itrs_made = 0\<rparr>) = 0"
  by (simp add: setup_loop_counts itrs_destroyed_def)

end
